theory Spec2Isabelle
  imports Complex_Main "HOL-Library.Char_ord" "HOL-Library.List_Lexorder" "HOL-Library.Sublist"
begin

section \<open>JavaScript values\<close>

text \<open>
  The report store (\<^verbatim>\<open>safe-travels-backend/data/safetyReports.js\<close>) works on plain
  JavaScript data: what \<^verbatim>\<open>JSON.parse\<close> returns and what object and array literals build.
  A value is one of the primitives, an array, or an object given by its own properties in
  enumeration order. Numbers are the finite doubles, compared as reals; the store never
  computes with them. \<^verbatim>\<open>undefined\<close> is what reading a missing property gives.
\<close>

datatype jsval =
  Undefined
  | Null
  | Bool bool
  | Num real
  | Str string
  | Arr "jsval list"
  | Obj "(string \<times> jsval) list"

type_synonym jsobject = "(string \<times> jsval) list"

datatype error = TypeError | IOError | SyntaxError

text \<open>\<^verbatim>\<open>o.k\<close> on an object: the property's value, \<^verbatim>\<open>undefined\<close> when there is none.\<close>

definition property :: "jsobject \<Rightarrow> string \<Rightarrow> jsval" where
  "property kvs k = (case map_of kvs k of None \<Rightarrow> Undefined | Some v \<Rightarrow> v)"

text \<open>
  \<^verbatim>\<open>v.k\<close> on any value, for the property names the store reads (\<^verbatim>\<open>timestamp\<close>,
  \<^verbatim>\<open>location\<close>, \<^verbatim>\<open>coordinates\<close>): \<^verbatim>\<open>null\<close> and \<^verbatim>\<open>undefined\<close> throw a TypeError,
  the other primitives and arrays have no such property.
\<close>

fun get :: "jsval \<Rightarrow> string \<Rightarrow> error + jsval" where
  "get Undefined k = Inl TypeError"
| "get Null k = Inl TypeError"
| "get (Obj kvs) k = Inr (property kvs k)"
| "get v k = Inr Undefined"

text \<open>Truthiness, as \<^verbatim>\<open>if (v)\<close> and \<^verbatim>\<open>v || d\<close> test it.\<close>

fun truthy :: "jsval \<Rightarrow> bool" where
  "truthy Undefined = False"
| "truthy Null = False"
| "truthy (Bool b) = b"
| "truthy (Num x) = (x \<noteq> 0)"
| "truthy (Str s) = (s \<noteq> [])"
| "truthy (Arr xs) = True"
| "truthy (Obj kvs) = True"

definition js_or :: "jsval \<Rightarrow> jsval \<Rightarrow> jsval" where
  "js_or v d = (if truthy v then v else d)"

subsection \<open>What a value is after \<^verbatim>\<open>JSON.stringify\<close> and \<^verbatim>\<open>JSON.parse\<close>\<close>

text \<open>
  \<^verbatim>\<open>JSON.stringify\<close> writes \<^verbatim>\<open>null\<close> for an \<^verbatim>\<open>undefined\<close> array element and leaves
  out a property whose value is \<^verbatim>\<open>undefined\<close>; every other value of this type is
  written so that \<^verbatim>\<open>JSON.parse\<close> reads it back.
\<close>

fun json_roundtrip :: "jsval \<Rightarrow> jsval" where
  "json_roundtrip (Arr xs) =
     Arr (map (\<lambda>x. if x = Undefined then Null else json_roundtrip x) xs)"
| "json_roundtrip (Obj kvs) =
     Obj (map (\<lambda>kv. (fst kv, json_roundtrip (snd kv)))
            (filter (\<lambda>kv. snd kv \<noteq> Undefined) kvs))"
| "json_roundtrip v = v"

subsection \<open>Relational comparison\<close>

text \<open>
  \<^verbatim>\<open>a >= b\<close> and \<^verbatim>\<open>a <= b\<close> as ECMAScript defines them: both operands are made
  primitive; two strings compare by code units, anything else compares as numbers, and a
  comparison with NaN is false. The two conversions that belong to the engine, a string
  read as a number and an array or object printed as a string, are parameters; \<open>None\<close>
  is NaN.
\<close>

record engine =
  StringToNumber :: "string \<Rightarrow> real option"
  ObjectToString :: "jsval \<Rightarrow> string"

fun ToPrimitive :: "engine \<Rightarrow> jsval \<Rightarrow> jsval" where
  "ToPrimitive eng (Arr xs) = Str (ObjectToString eng (Arr xs))"
| "ToPrimitive eng (Obj kvs) = Str (ObjectToString eng (Obj kvs))"
| "ToPrimitive eng v = v"

fun ToNumber :: "engine \<Rightarrow> jsval \<Rightarrow> real option" where
  "ToNumber eng Undefined = None"
| "ToNumber eng Null = Some 0"
| "ToNumber eng (Bool b) = Some (if b then 1 else 0)"
| "ToNumber eng (Num x) = Some x"
| "ToNumber eng (Str s) = StringToNumber eng s"
| "ToNumber eng v = StringToNumber eng (ObjectToString eng v)"

definition IsLessThan :: "engine \<Rightarrow> jsval \<Rightarrow> jsval \<Rightarrow> bool option" where
  "IsLessThan eng x y =
     (case (ToPrimitive eng x, ToPrimitive eng y) of
        (Str s, Str t) \<Rightarrow> Some (s < t)
      | (px, py) \<Rightarrow>
          (case (ToNumber eng px, ToNumber eng py) of
             (Some nx, Some ny) \<Rightarrow> Some (nx < ny)
           | _ \<Rightarrow> None))"

definition js_ge :: "engine \<Rightarrow> jsval \<Rightarrow> jsval \<Rightarrow> bool" where
  "js_ge eng a b = (case IsLessThan eng a b of Some r \<Rightarrow> \<not> r | None \<Rightarrow> False)"

definition js_le :: "engine \<Rightarrow> jsval \<Rightarrow> jsval \<Rightarrow> bool" where
  "js_le eng a b = (case IsLessThan eng b a of Some r \<Rightarrow> \<not> r | None \<Rightarrow> False)"

section \<open>The report store\<close>

subsection \<open>The durable medium and the environment\<close>

text \<open>
  The reports file \<^verbatim>\<open>safetyReports.json\<close> is absent or present; its text is described
  by what \<^verbatim>\<open>JSON.parse\<close> does with it: throw a SyntaxError, or return a value.
\<close>

datatype file_content = Unparseable | Json jsval

datatype medium = Absent | Present file_content

text \<open>
  \<^verbatim>\<open>fs.writeFileSync\<close> either writes the whole text, or throws: before it touched the
  file, or after it truncated the file and wrote only part of the text. A proper prefix of
  the text of an array is not JSON.
\<close>

datatype write_outcome = Written | Failed_untouched | Failed_torn

text \<open>
  What one call reads from outside the program: whether \<^verbatim>\<open>fs.readFileSync\<close> throws,
  \<^verbatim>\<open>Date.now()\<close> in milliseconds, the string \<^verbatim>\<open>Math.random().toString(36)\<close>,
  the string \<^verbatim>\<open>new Date().toISOString()\<close>, and how the write ends.
\<close>

record env =
  read_fails :: bool
  date_now :: nat
  random_str :: string
  iso_now :: string
  write_result :: write_outcome

subsection \<open>\<^verbatim>\<open>ALLOWED_TAGS\<close>, \<^verbatim>\<open>loadReports\<close>, \<^verbatim>\<open>saveReports\<close>\<close>

definition ALLOWED_TAGS :: "string list" where
  "ALLOWED_TAGS =
     [''Harassment'', ''Welcoming'', ''Police Presence'', ''Protest'', ''Crowded'', ''Quiet'',
      ''Other'']"

text \<open>
  The body of the \<^verbatim>\<open>try\<close> block of \<^verbatim>\<open>loadReports\<close>: \<open>Inr None\<close> when
  \<^verbatim>\<open>fs.existsSync\<close> is false and the block falls through, \<open>Inl\<close> for what
  \<^verbatim>\<open>readFileSync\<close> or \<^verbatim>\<open>JSON.parse\<close> throws.
\<close>

definition loadReports_try :: "bool \<Rightarrow> medium \<Rightarrow> error + jsval option" where
  "loadReports_try rf f =
     (case f of
        Absent \<Rightarrow> Inr None
      | Present c \<Rightarrow>
          if rf then Inl IOError
          else (case c of Unparseable \<Rightarrow> Inl SyntaxError | Json v \<Rightarrow> Inr (Some v)))"

text \<open>\<^verbatim>\<open>loadReports\<close>: the \<^verbatim>\<open>catch\<close> logs the error; then \<^verbatim>\<open>return []\<close>.\<close>

definition loadReports :: "bool \<Rightarrow> medium \<Rightarrow> jsval" where
  "loadReports rf f =
     (case loadReports_try rf f of
        Inr (Some v) \<Rightarrow> v
      | Inr None \<Rightarrow> Arr []
      | Inl e \<Rightarrow> Arr [])"

text \<open>
  \<^verbatim>\<open>saveReports\<close> on the array \<open>reports\<close>: the status it returns and the file it
  leaves. A thrown write error is caught, logged, and becomes \<^verbatim>\<open>false\<close>.
\<close>

definition saveReports :: "write_outcome \<Rightarrow> jsval list \<Rightarrow> medium \<Rightarrow> bool \<times> medium" where
  "saveReports w reports f =
     (case w of
        Written \<Rightarrow> (True, Present (Json (json_roundtrip (Arr reports))))
      | Failed_untouched \<Rightarrow> (False, f)
      | Failed_torn \<Rightarrow> (False, Present Unparseable))"

subsection \<open>\<^verbatim>\<open>generateReportId\<close>\<close>

text \<open>A non-negative integer in a template literal prints in decimal.\<close>

definition digit :: "nat \<Rightarrow> char" where
  "digit d = ''0123456789'' ! d"

fun decimal :: "nat \<Rightarrow> string" where
  "decimal n = (if n < 10 then [digit n] else decimal (n div 10) @ [digit (n mod 10)])"

declare decimal.simps [simp del]

text \<open>\<^verbatim>\<open>s.substr(start, len)\<close> for non-negative arguments.\<close>

definition substr :: "string \<Rightarrow> nat \<Rightarrow> nat \<Rightarrow> string" where
  "substr s start len = take len (drop start s)"

definition generateReportId :: "nat \<Rightarrow> string \<Rightarrow> string" where
  "generateReportId now rnd = ''report_'' @ decimal now @ ''_'' @ substr rnd 2 9"

subsection \<open>\<^verbatim>\<open>createReport\<close>\<close>

definition newReport :: "env \<Rightarrow> jsobject \<Rightarrow> jsval" where
  "newReport e reportData =
     Obj [(''_id'', Str (generateReportId (date_now e) (random_str e))),
          (''location'',
             Obj [(''type'', Str ''Point''),
                  (''coordinates'',
                     Arr [property reportData ''longitude'', property reportData ''latitude''])]),
          (''safetyScore'', property reportData ''safetyScore''),
          (''tags'', js_or (property reportData ''tags'') (Arr [])),
          (''comment'', js_or (property reportData ''comment'') (Str [])),
          (''timestamp'', Str (iso_now e))]"

text \<open>
  \<^verbatim>\<open>createReport\<close>: what the caller gets and the file afterwards.
  \<^verbatim>\<open>reports.push\<close> throws a TypeError when the loaded value is not an array; the
  result of \<^verbatim>\<open>saveReports\<close> is dropped.
\<close>

definition createReport :: "env \<Rightarrow> jsobject \<Rightarrow> medium \<Rightarrow> (error + jsval) \<times> medium" where
  "createReport e reportData f =
     (case loadReports (read_fails e) f of
        Arr reports \<Rightarrow>
          (let saved = saveReports (write_result e) (reports @ [newReport e reportData]) f
           in (Inr (newReport e reportData), snd saved))
      | _ \<Rightarrow> (Inl TypeError, f))"

subsection \<open>\<^verbatim>\<open>getReports\<close>, \<^verbatim>\<open>getReportsInBounds\<close>, \<^verbatim>\<open>getAllowedTags\<close>\<close>

text \<open>
  \<^verbatim>\<open>xs.filter(p)\<close>: the callback runs on the elements in order, and the first
  exception it throws ends the call. A value that is not an array has no
  \<^verbatim>\<open>filter\<close> method.
\<close>

fun filter_elements :: "(jsval \<Rightarrow> error + bool) \<Rightarrow> jsval list \<Rightarrow> error + jsval list" where
  "filter_elements p [] = Inr []"
| "filter_elements p (x # xs) =
     (case p x of
        Inl e \<Rightarrow> Inl e
      | Inr b \<Rightarrow>
          (case filter_elements p xs of
             Inl e \<Rightarrow> Inl e
           | Inr ys \<Rightarrow> Inr (if b then x # ys else ys)))"

definition array_filter :: "(jsval \<Rightarrow> error + bool) \<Rightarrow> jsval \<Rightarrow> error + jsval" where
  "array_filter p v =
     (case v of
        Arr xs \<Rightarrow> (case filter_elements p xs of Inl e \<Rightarrow> Inl e | Inr ys \<Rightarrow> Inr (Arr ys))
      | _ \<Rightarrow> Inl TypeError)"

definition timestamp_ge :: "engine \<Rightarrow> jsval \<Rightarrow> jsval \<Rightarrow> error + bool" where
  "timestamp_ge eng bound r =
     (case get r ''timestamp'' of Inl e \<Rightarrow> Inl e | Inr t \<Rightarrow> Inr (js_ge eng t bound))"

definition timestamp_le :: "engine \<Rightarrow> jsval \<Rightarrow> jsval \<Rightarrow> error + bool" where
  "timestamp_le eng bound r =
     (case get r ''timestamp'' of Inl e \<Rightarrow> Inl e | Inr t \<Rightarrow> Inr (js_le eng t bound))"

definition getReports :: "engine \<Rightarrow> bool \<Rightarrow> jsobject \<Rightarrow> medium \<Rightarrow> error + jsval" where
  "getReports eng rf filters f =
     (let reports = loadReports rf f;
          minDate = property filters ''minDate'';
          maxDate = property filters ''maxDate''
      in case (if truthy minDate then array_filter (timestamp_ge eng minDate) reports
               else Inr reports) of
           Inl e \<Rightarrow> Inl e
         | Inr filteredReports \<Rightarrow>
             if truthy maxDate then array_filter (timestamp_le eng maxDate) filteredReports
             else Inr filteredReports)"

text \<open>
  \<^verbatim>\<open>const [lon, lat] = c\<close>: an array gives its first two elements, \<^verbatim>\<open>undefined\<close>
  where it is shorter; a string gives its first two characters; nothing else is iterable.
\<close>

fun element :: "jsval list \<Rightarrow> nat \<Rightarrow> jsval" where
  "element xs i = (if i < length xs then xs ! i else Undefined)"

fun destructure2 :: "jsval \<Rightarrow> error + jsval \<times> jsval" where
  "destructure2 (Arr xs) = Inr (element xs 0, element xs 1)"
| "destructure2 (Str s) = Inr (element (map (\<lambda>c. Str [c]) s) 0, element (map (\<lambda>c. Str [c]) s) 1)"
| "destructure2 v = Inl TypeError"

definition in_bounds ::
  "engine \<Rightarrow> real \<Rightarrow> real \<Rightarrow> real \<Rightarrow> real \<Rightarrow> jsval \<Rightarrow> error + bool" where
  "in_bounds eng minLat maxLat minLon maxLon report =
     (case get report ''location'' of
        Inl e \<Rightarrow> Inl e
      | Inr loc \<Rightarrow>
          (case get loc ''coordinates'' of
             Inl e \<Rightarrow> Inl e
           | Inr c \<Rightarrow>
               (case destructure2 c of
                  Inl e \<Rightarrow> Inl e
                | Inr (lon, lat) \<Rightarrow>
                    Inr (js_ge eng lat (Num minLat) \<and> js_le eng lat (Num maxLat)
                         \<and> js_ge eng lon (Num minLon) \<and> js_le eng lon (Num maxLon)))))"

definition getReportsInBounds ::
  "engine \<Rightarrow> bool \<Rightarrow> real \<Rightarrow> real \<Rightarrow> real \<Rightarrow> real \<Rightarrow> medium \<Rightarrow> error + jsval" where
  "getReportsInBounds eng rf minLat maxLat minLon maxLon f =
     array_filter (in_bounds eng minLat maxLat minLon maxLon) (loadReports rf f)"

definition getAllowedTags :: "string list" where
  "getAllowedTags = ALLOWED_TAGS"

text \<open>The properties of \<^verbatim>\<open>reportData\<close> that \<^verbatim>\<open>createReport\<close> reads.\<close>

definition reportData_properties :: "string list" where
  "reportData_properties = [''longitude'', ''latitude'', ''safetyScore'', ''tags'', ''comment'']"

subsection \<open>Sequences of calls, and what the medium holds\<close>

text \<open>The file after a sequence of \<^verbatim>\<open>createReport\<close> calls, each with its own environment.\<close>

fun createReports :: "(env \<times> jsobject) list \<Rightarrow> medium \<Rightarrow> medium" where
  "createReports [] f = f"
| "createReports (c # cs) f = createReports cs (snd (createReport (fst c) (snd c) f))"

text \<open>What the callers of these calls get, in order.\<close>

fun returned_reports :: "(env \<times> jsobject) list \<Rightarrow> medium \<Rightarrow> (error + jsval) list" where
  "returned_reports [] f = []"
| "returned_reports (c # cs) f =
     fst (createReport (fst c) (snd c) f)
       # returned_reports cs (snd (createReport (fst c) (snd c) f))"

text \<open>The records a later process start finds in the file, when it holds an array.\<close>

fun stored_reports :: "medium \<Rightarrow> jsval list" where
  "stored_reports (Present (Json (Arr rs))) = rs"
| "stored_reports f = []"

text \<open>
  The schema in the header comment of the store: a report has exactly these six fields,
  in this order, each with a value.
\<close>

definition report_fields :: "string list" where
  "report_fields = [''_id'', ''location'', ''safetyScore'', ''tags'', ''comment'', ''timestamp'']"

fun has_report_fields :: "jsval \<Rightarrow> bool" where
  "has_report_fields (Obj kvs) =
     (map fst kvs = report_fields \<and> list_all (\<lambda>kv. snd kv \<noteq> Undefined) kvs)"
| "has_report_fields v = False"

text \<open>
  Report data as the store's JSDoc expects it (\<^verbatim>\<open>reportData - Report data (validated)\<close>):
  numeric latitude, longitude and score, tags absent or an array of strings, comment
  absent or a string.
\<close>

fun is_num :: "jsval \<Rightarrow> bool" where
  "is_num (Num x) = True"
| "is_num v = False"

fun is_str :: "jsval \<Rightarrow> bool" where
  "is_str (Str s) = True"
| "is_str v = False"

fun is_str_array :: "jsval \<Rightarrow> bool" where
  "is_str_array (Arr xs) = list_all is_str xs"
| "is_str_array v = False"

definition well_typed :: "jsobject \<Rightarrow> bool" where
  "well_typed reportData =
     (is_num (property reportData ''latitude'')
      \<and> is_num (property reportData ''longitude'')
      \<and> is_num (property reportData ''safetyScore'')
      \<and> (property reportData ''tags'' = Undefined \<or> is_str_array (property reportData ''tags''))
      \<and> (property reportData ''comment'' = Undefined \<or> is_str (property reportData ''comment'')))"

text \<open>The timestamp string and the coordinates of a stored record, where it has them.\<close>

definition timestamp_of :: "jsval \<Rightarrow> string option" where
  "timestamp_of r = (case get r ''timestamp'' of Inr (Str s) \<Rightarrow> Some s | _ \<Rightarrow> None)"

definition coordinates_of :: "jsval \<Rightarrow> (real \<times> real) option" where
  "coordinates_of r =
     (case get r ''location'' of
        Inr loc \<Rightarrow>
          (case get loc ''coordinates'' of
             Inr (Arr (Num lon # Num lat # rest)) \<Rightarrow> Some (lon, lat)
           | _ \<Rightarrow> None)
      | _ \<Rightarrow> None)"

text \<open>
  The filters in the words of the specification. A time bound is given by a non-empty
  string; a record matches the time range when its timestamp is at or after the lower
  bound and at or before the upper bound, where given. A record matches the bounding box
  when its latitude lies in \<open>[minLat, maxLat]\<close> and its longitude in \<open>[minLon, maxLon]\<close>.
\<close>

fun date_bound :: "jsval \<Rightarrow> string option" where
  "date_bound (Str s) = (if s = [] then None else Some s)"
| "date_bound v = None"

definition matches_dates :: "jsobject \<Rightarrow> jsval \<Rightarrow> bool" where
  "matches_dates filters r =
     (case timestamp_of r of
        None \<Rightarrow> False
      | Some t \<Rightarrow>
          (case date_bound (property filters ''minDate'') of None \<Rightarrow> True | Some lo \<Rightarrow> lo \<le> t)
          \<and> (case date_bound (property filters ''maxDate'') of None \<Rightarrow> True | Some hi \<Rightarrow> t \<le> hi))"

definition in_box :: "real \<Rightarrow> real \<Rightarrow> real \<Rightarrow> real \<Rightarrow> jsval \<Rightarrow> bool" where
  "in_box minLat maxLat minLon maxLon r =
     (case coordinates_of r of
        None \<Rightarrow> False
      | Some (lon, lat) \<Rightarrow> minLat \<le> lat \<and> lat \<le> maxLat \<and> minLon \<le> lon \<and> lon \<le> maxLon)"

text \<open>The example submission of the README's test section, with an address added.\<close>

definition sample_data :: jsobject where
  "sample_data =
     [(''latitude'', Num 43.6532), (''longitude'', Num (- 79.3832)), (''safetyScore'', Num 3),
      (''tags'', Arr [Str ''Harassment'', Str ''Police Presence'']),
      (''comment'', Str ''Test report''), (''ip'', Str ''203.0.113.7''),
      (''userId'', Str ''u-1''), (''deviceId'', Str ''d-1'')]"

definition second_data :: jsobject where
  "second_data =
     [(''latitude'', Num 48.8566), (''longitude'', Num 2.3522), (''safetyScore'', Num 5),
      (''comment'', Str ''Quiet evening'')]"

definition sample_env :: env where
  "sample_env =
     \<lparr>read_fails = False, date_now = 1700000000000, random_str = ''0.4fzyo82mvyr'',
      iso_now = ''2023-11-14T22:13:20.000Z'', write_result = Written\<rparr>"

text \<open>A second call, one second later.\<close>

definition later_env :: env where
  "later_env =
     \<lparr>read_fails = False, date_now = 1700000001000, random_str = ''0.9zk1q0c3abx'',
      iso_now = ''2023-11-14T22:13:21.000Z'', write_result = Written\<rparr>"

text \<open>A call in the millisecond of the first, whose random draw shares its leading digits.\<close>

definition colliding_env :: env where
  "colliding_env =
     \<lparr>read_fails = False, date_now = 1700000000000, random_str = ''0.4fzyo82mvzz'',
      iso_now = ''2023-11-14T22:13:20.000Z'', write_result = Written\<rparr>"

text \<open>A submission with a tag outside the catalog.\<close>

definition unknown_tag_data :: jsobject where
  "unknown_tag_data =
     [(''latitude'', Num 43.6532), (''longitude'', Num (- 79.3832)), (''safetyScore'', Num 3),
      (''tags'', Arr [Str ''Harassment'', Str ''Fireworks'']), (''comment'', Str ''Test report'')]"

text \<open>A submission whose comment is \<open>n\<close> letters, with a tag-like sequence in front.\<close>

definition long_comment_data :: "nat \<Rightarrow> jsobject" where
  "long_comment_data n =
     [(''latitude'', Num 43.6532), (''longitude'', Num (- 79.3832)), (''safetyScore'', Num 3),
      (''comment'', Str (''<i>'' @ replicate n (CHR ''a'')))]"

definition sample_engine :: engine where
  "sample_engine = \<lparr>StringToNumber = (\<lambda>s. None), ObjectToString = (\<lambda>v. ''[object Object]'')\<rparr>"

section \<open>The client's check\<close>

text \<open>
  The validation at the head of \<^verbatim>\<open>handleSubmit\<close> in
  \<^verbatim>\<open>components/SafetyReportModal.js\<close>: the title of the alert it raises, or \<open>None\<close>
  when it goes on to submit. The score and the location are \<^verbatim>\<open>null\<close> until set.
\<close>

definition handleSubmit_validation :: "jsval \<Rightarrow> jsval \<Rightarrow> string \<Rightarrow> string option" where
  "handleSubmit_validation safetyScore location comment =
     (if \<not> truthy safetyScore then Some ''Required''
      else if \<not> truthy location then Some ''Location Required''
      else if length comment > 280 then Some ''Comment Too Long''
      else None)"

section \<open>The ingestion endpoint\<close>

subsection \<open>Rate limiter\<close>

text \<open>Modelled from the spec: the window of one identity, its count and the time it began. The
  server module that holds the rate limiter is not among the sources.\<close>

record RateLimitWindow =
  count :: nat
  windowStart :: int

text \<open>Modelled from the spec: the two answers of the rate limiter.\<close>

datatype decision = Allowed | Throttled

text \<open>Modelled from the spec: the window map of the rate limiter, keyed by network identity.\<close>

type_synonym limiter = "string \<Rightarrow> RateLimitWindow option"

text \<open>Modelled from the spec: the rate limiter \<^verbatim>\<open>checkAndRecord\<close> of the absent server
  module. A fixed window of length \<open>W\<close> and a quota \<open>Q\<close> per identity. No window, or
  \<open>now - windowStart \<ge> W\<close>: a fresh window with count 1, allowed. Otherwise the count is
  incremented and the call is allowed iff the new count is at most \<open>Q\<close>; a repeated
  rejection no longer increments.\<close>

definition checkAndRecord ::
  "int \<Rightarrow> nat \<Rightarrow> string \<Rightarrow> int \<Rightarrow> limiter \<Rightarrow> decision \<times> limiter" where
  "checkAndRecord W Q identity now m =
     (case m identity of
        None \<Rightarrow> (Allowed, m(identity \<mapsto> \<lparr>count = 1, windowStart = now\<rparr>))
      | Some w \<Rightarrow>
          if now - windowStart w \<ge> W
          then (Allowed, m(identity \<mapsto> \<lparr>count = 1, windowStart = now\<rparr>))
          else if count w + 1 \<le> Q
          then (Allowed, m(identity \<mapsto> w\<lparr>count := count w + 1\<rparr>))
          else if count w \<le> Q
          then (Throttled, m(identity \<mapsto> w\<lparr>count := count w + 1\<rparr>))
          else (Throttled, m))"

text \<open>Modelled from the spec: the default window of the absent limiter configuration, one hour,
  in milliseconds.\<close>

definition default_window :: int where
  "default_window = 3600000"

text \<open>Modelled from the spec: the default quota of the absent limiter configuration.\<close>

definition default_quota :: nat where
  "default_quota = 3"

text \<open>Modelled from the spec: the absent endpoint puts each submission \<open>(identity, time)\<close> to
  the limiter, one after the other. The result is each identity with the decision it got,
  and the limiter afterwards.\<close>

fun checkAll ::
  "int \<Rightarrow> nat \<Rightarrow> (string \<times> int) list \<Rightarrow> limiter \<Rightarrow> (string \<times> decision) list \<times> limiter" where
  "checkAll W Q [] m = ([], m)"
| "checkAll W Q (ev # evs) m =
     (let r = checkAndRecord W Q (fst ev) (snd ev) m;
          rest = checkAll W Q evs (snd r)
      in ((fst ev, fst r) # fst rest, snd rest))"

subsection \<open>Validator\<close>

text \<open>Modelled from the spec: the sanitizer of comments, which is in the absent server module.
  It removes every markup or tag-like sequence, a \<^verbatim>\<open><\<close> up to the next \<^verbatim>\<open>>\<close>, and
  keeps the remaining text.\<close>

function strip_markup :: "string \<Rightarrow> string" where
  "strip_markup [] = []"
| "strip_markup (c # cs) =
     (if c = CHR ''<'' \<and> CHR ''>'' \<in> set cs
      then strip_markup (tl (dropWhile (\<lambda>x. x \<noteq> CHR ''>'') cs))
      else c # strip_markup cs)"
  by pat_completeness auto
termination
proof (relation "measure length")
  fix c :: char and cs :: string
  have "length (tl (dropWhile (\<lambda>x. x \<noteq> CHR ''>'') cs)) \<le> length cs"
    using length_dropWhile_le [of "\<lambda>x. x \<noteq> CHR ''>''" cs] by simp
  then show "(tl (dropWhile (\<lambda>x. x \<noteq> CHR ''>'') cs), c # cs) \<in> measure length"
    by simp
qed simp_all

text \<open>Modelled from the spec: what the absent sanitizer has to remove. A string holds a
  tag-like sequence when some \<^verbatim>\<open><\<close> has a \<^verbatim>\<open>>\<close> after it.\<close>

fun has_markup :: "string \<Rightarrow> bool" where
  "has_markup [] = False"
| "has_markup (c # cs) = ((c = CHR ''<'' \<and> CHR ''>'' \<in> set cs) \<or> has_markup cs)"

text \<open>Modelled from the spec: the distinct errors of the absent validator, one per check.\<close>

datatype validation_error = LocationError | ScoreError | TagError | CommentError

text \<open>Modelled from the spec: check 1 of the absent validator. Latitude in \<open>[-90, 90]\<close> and
  longitude in \<open>[-180, 180]\<close>, both present and numeric.\<close>

definition location_ok :: "jsobject \<Rightarrow> bool" where
  "location_ok raw =
     (case (property raw ''latitude'', property raw ''longitude'') of
        (Num lat, Num lon) \<Rightarrow> - 90 \<le> lat \<and> lat \<le> 90 \<and> - 180 \<le> lon \<and> lon \<le> 180
      | _ \<Rightarrow> False)"

text \<open>Modelled from the spec: check 2 of the absent validator. The score is an integer in
  \<open>[1, 5]\<close>.\<close>

definition score_ok :: "jsobject \<Rightarrow> bool" where
  "score_ok raw =
     (case property raw ''safetyScore'' of
        Num s \<Rightarrow> s = of_int \<lfloor>s\<rfloor> \<and> 1 \<le> s \<and> s \<le> 5
      | _ \<Rightarrow> False)"

text \<open>Modelled from the spec: membership in the Tag Catalog, for check 3 of the absent validator.
  The catalog is the \<^verbatim>\<open>ALLOWED_TAGS\<close> of the store.\<close>

fun in_catalog :: "jsval \<Rightarrow> bool" where
  "in_catalog (Str t) = (t \<in> set ALLOWED_TAGS)"
| "in_catalog v = False"

text \<open>Modelled from the spec: check 3 of the absent validator. Tags are optional; when present
  they are a sequence whose every element is a member of the Tag Catalog.\<close>

definition tags_ok :: "jsobject \<Rightarrow> bool" where
  "tags_ok raw =
     (case property raw ''tags'' of
        Undefined \<Rightarrow> True
      | Arr ts \<Rightarrow> list_all in_catalog ts
      | _ \<Rightarrow> False)"

text \<open>Modelled from the spec: check 4 of the absent validator. A comment, if present, has at
  most 280 characters after stripping; the result is the stripped comment.\<close>

definition sanitize_comment :: "jsval \<Rightarrow> validation_error + jsval" where
  "sanitize_comment c =
     (case c of
        Undefined \<Rightarrow> Inr Undefined
      | Str s \<Rightarrow> if length (strip_markup s) \<le> 280 then Inr (Str (strip_markup s))
                 else Inl CommentError
      | _ \<Rightarrow> Inl CommentError)"

text \<open>Modelled from the spec: \<^verbatim>\<open>validate\<close>, in the absent server module. The checks run
  in the spec's order and the first failure wins. The result is the normalized payload, with
  the comment sanitized.\<close>

definition validate :: "jsobject \<Rightarrow> validation_error + jsobject" where
  "validate raw =
     (if \<not> location_ok raw then Inl LocationError
      else if \<not> score_ok raw then Inl ScoreError
      else if \<not> tags_ok raw then Inl TagError
      else (case sanitize_comment (property raw ''comment'') of
              Inl err \<Rightarrow> Inl err
            | Inr comment \<Rightarrow>
                Inr [(''latitude'', property raw ''latitude''),
                     (''longitude'', property raw ''longitude''),
                     (''safetyScore'', property raw ''safetyScore''),
                     (''tags'', property raw ''tags''),
                     (''comment'', comment)]))"

subsection \<open>Orchestration\<close>

text \<open>Modelled from the spec: the responses of the absent endpoint, 201 with the stored report,
  400 with the failed check, 429, and a generic server failure.\<close>

datatype response =
  Created jsval
  | BadRequest validation_error
  | TooManyRequests
  | ServerError

text \<open>Modelled from the spec: the endpoint \<^verbatim>\<open>POST /api/reports\<close> of the absent server
  module. It asks the rate limiter first, validates next, and appends with the store's
  \<^verbatim>\<open>createReport\<close>.\<close>

definition submit ::
  "int \<Rightarrow> nat \<Rightarrow> string \<Rightarrow> int \<Rightarrow> env \<Rightarrow> jsobject \<Rightarrow> limiter \<times> medium
     \<Rightarrow> response \<times> (limiter \<times> medium)" where
  "submit W Q identity now e raw st =
     (case checkAndRecord W Q identity now (fst st) of
        (Throttled, m) \<Rightarrow> (TooManyRequests, (m, snd st))
      | (Allowed, m) \<Rightarrow>
          (case validate raw of
             Inl err \<Rightarrow> (BadRequest err, (m, snd st))
           | Inr payload \<Rightarrow>
               (case createReport e payload (snd st) of
                  (Inr report, f) \<Rightarrow> (Created report, (m, f))
                | (Inl err, f) \<Rightarrow> (ServerError, (m, f)))))"

section \<open>Properties of the store\<close>

subsection \<open>Loading and appending\<close>

lemma loadReports_simps:
  "loadReports rf Absent = Arr []"
  "loadReports True (Present c) = Arr []"
  "loadReports False (Present Unparseable) = Arr []"
  "loadReports False (Present (Json v)) = v"
  by (simp_all add: loadReports_def loadReports_try_def)

lemma loadReports_cases:
  "loadReports rf f = Arr [] \<or> (\<exists>v. f = Present (Json v) \<and> loadReports rf f = v)"
proof (cases f)
  case Absent
  then show ?thesis by (simp add: loadReports_simps)
next
  case (Present c)
  then show ?thesis by (cases c; cases rf) (simp_all add: loadReports_simps)
qed

lemma loadReports_Arr:
  "loadReports rf f = Arr rs \<Longrightarrow> rs = [] \<or> rs = stored_reports f"
  using loadReports_cases [of rf f] by auto

lemma createReport_Arr:
  "loadReports (read_fails e) f = Arr rs \<Longrightarrow>
   createReport e d f = (Inr (newReport e d), snd (saveReports (write_result e) (rs @ [newReport e d]) f))"
  by (simp add: createReport_def Let_def)

lemma createReport_not_Arr:
  "(\<And>rs. loadReports (read_fails e) f \<noteq> Arr rs) \<Longrightarrow> createReport e d f = (Inl TypeError, f)"
  by (cases "loadReports (read_fails e) f") (auto simp: createReport_def)

text \<open>
  Claim C10. \<^verbatim>\<open>loadReports\<close> never raises: when the reports file is absent, when reading
  it fails, or when its text does not parse, the exception (if any) stays inside the
  \<^verbatim>\<open>try\<close> block and the result is the empty array. The store then starts empty, and a
  \<^verbatim>\<open>createReport\<close> whose write succeeds replaces whatever the file held by the array of
  the one new report.
\<close>

theorem loadReports_total:
  assumes "f = Absent \<or> rf \<or> f = Present Unparseable"
  shows "loadReports rf f = Arr []
    \<and> loadReports_try rf f \<in> {Inr None, Inl IOError, Inl SyntaxError}
    \<and> (read_fails e = rf \<and> write_result e = Written \<longrightarrow>
         createReport e reportData f =
           (Inr (newReport e reportData),
            Present (Json (json_roundtrip (Arr [newReport e reportData])))))"
proof -
  have l: "loadReports rf f = Arr []"
    using assms by (cases f; cases rf) (auto simp: loadReports_simps)
  have t: "loadReports_try rf f \<in> {Inr None, Inl IOError, Inl SyntaxError}"
    using assms by (cases f; cases rf) (auto simp: loadReports_try_def)
  have c: "createReport e reportData f =
           (Inr (newReport e reportData),
            Present (Json (json_roundtrip (Arr [newReport e reportData]))))"
    if "read_fails e = rf" "write_result e = Written"
    using that l by (simp add: createReport_Arr saveReports_def)
  from l t c show ?thesis by blast
qed

lemma sample_newReport:
  "newReport sample_env sample_data =
     Obj [(''_id'', Str ''report_1700000000000_4fzyo82mv''),
          (''location'', Obj [(''type'', Str ''Point''), (''coordinates'', Arr [Num (- 79.3832), Num 43.6532])]),
          (''safetyScore'', Num 3),
          (''tags'', Arr [Str ''Harassment'', Str ''Police Presence'']),
          (''comment'', Str ''Test report''),
          (''timestamp'', Str ''2023-11-14T22:13:20.000Z'')]"
  by (simp add: newReport_def sample_env_def sample_data_def property_def js_or_def
      generateReportId_def substr_def decimal.simps digit_def)

lemma sample_roundtrip: "json_roundtrip (Arr [newReport sample_env sample_data]) = Arr [newReport sample_env sample_data]"
  by (simp add: sample_newReport)

theorem loadReports_total_witness:
  "loadReports False (Present Unparseable) = Arr []
   \<and> createReport sample_env sample_data (Present Unparseable) =
       (Inr (newReport sample_env sample_data), Present (Json (Arr [newReport sample_env sample_data])))"
proof -
  have e: "read_fails sample_env = False" "write_result sample_env = Written"
    by (simp_all add: sample_env_def)
  show ?thesis
    using loadReports_total [of "Present Unparseable" False sample_env sample_data] e
    by (simp only: sample_roundtrip) simp
qed

subsection \<open>Anonymity\<close>

lemma json_roundtrip_defined: "v \<noteq> Undefined \<Longrightarrow> json_roundtrip v \<noteq> Undefined"
  by (cases v) simp_all

lemma js_or_defined: "d \<noteq> Undefined \<Longrightarrow> js_or v d \<noteq> Undefined"
  by (cases v) (auto simp: js_or_def)

lemma has_report_fields_roundtrip:
  assumes "has_report_fields r"
  shows "has_report_fields (json_roundtrip r)"
proof -
  from assms obtain kvs where r: "r = Obj kvs"
    and k: "map fst kvs = report_fields" and d: "list_all (\<lambda>kv. snd kv \<noteq> Undefined) kvs"
    by (cases r) auto
  from d have f: "filter (\<lambda>kv. snd kv \<noteq> Undefined) kvs = kvs"
    by (simp add: list_all_iff)
  from d have "list_all (\<lambda>kv. snd kv \<noteq> Undefined) (map (\<lambda>kv. (fst kv, json_roundtrip (snd kv))) kvs)"
    by (simp add: list_all_iff json_roundtrip_defined)
  with k f r show ?thesis by (simp add: comp_def)
qed

lemma has_report_fields_newReport:
  "property d ''safetyScore'' \<noteq> Undefined \<Longrightarrow> has_report_fields (newReport e d)"
  by (simp add: newReport_def report_fields_def js_or_defined)

lemma has_report_fields_element:
  "has_report_fields r \<Longrightarrow> has_report_fields (if r = Undefined then Null else json_roundtrip r)"
  by (cases r) (simp_all only: has_report_fields_roundtrip has_report_fields.simps jsval.distinct if_False)

lemma stored_after_save:
  "stored_reports (snd (saveReports w rs f)) =
     (case w of Written \<Rightarrow> map (\<lambda>x. if x = Undefined then Null else json_roundtrip x) rs
      | Failed_untouched \<Rightarrow> stored_reports f | Failed_torn \<Rightarrow> [])"
  by (cases w) (simp_all add: saveReports_def)

lemma anonymous_after_save:
  assumes "list_all has_report_fields rs" "list_all has_report_fields (stored_reports f)"
  shows "list_all has_report_fields (stored_reports (snd (saveReports w rs f)))"
proof -
  from assms(1)
  have "list_all has_report_fields (map (\<lambda>x. if x = Undefined then Null else json_roundtrip x) rs)"
    by (induction rs) (simp_all add: has_report_fields_element)
  with assms(2) show ?thesis by (cases w) (simp_all add: stored_after_save)
qed

lemma anonymous_after_create:
  assumes inv: "list_all has_report_fields (stored_reports f)"
    and score: "property d ''safetyScore'' \<noteq> Undefined"
  shows "list_all has_report_fields (stored_reports (snd (createReport e d f)))"
proof (cases "\<exists>rs. loadReports (read_fails e) f = Arr rs")
  case True
  then obtain rs where l: "loadReports (read_fails e) f = Arr rs" by blast
  then have "rs = [] \<or> rs = stored_reports f" by (rule loadReports_Arr)
  with inv have "list_all has_report_fields rs" by auto
  with score have "list_all has_report_fields (rs @ [newReport e d])"
    by (simp add: has_report_fields_newReport)
  with inv l show ?thesis by (simp add: createReport_Arr anonymous_after_save)
next
  case False
  then have "createReport e d f = (Inl TypeError, f)" by (intro createReport_not_Arr) blast
  with inv show ?thesis by simp
qed

lemma filter_elements_subset: "filter_elements p xs = Inr ys \<Longrightarrow> set ys \<subseteq> set xs"
  by (induction xs arbitrary: ys) (auto split: sum.splits if_splits)

lemma array_filter_subset:
  "array_filter p v = Inr (Arr ys) \<Longrightarrow> \<exists>xs. v = Arr xs \<and> set ys \<subseteq> set xs"
  by (cases v) (auto simp: array_filter_def split: sum.splits dest: filter_elements_subset)

lemma array_filter_Arr: "array_filter p v = Inr w \<Longrightarrow> \<exists>ys. w = Arr ys"
  by (cases v) (auto simp: array_filter_def split: sum.splits)

lemma getReports_subset:
  assumes "getReports eng rf filters f = Inr (Arr ys)"
  shows "\<exists>xs. loadReports rf f = Arr xs \<and> set ys \<subseteq> set xs"
proof -
  let ?minD = "property filters ''minDate''" and ?maxD = "property filters ''maxDate''"
  obtain v where 1: "(if truthy ?minD then array_filter (timestamp_ge eng ?minD) (loadReports rf f)
               else Inr (loadReports rf f)) = Inr v"
    and 2: "(if truthy ?maxD then array_filter (timestamp_le eng ?maxD) v else Inr v) = Inr (Arr ys)"
    using assms by (auto simp: getReports_def Let_def split: sum.splits)
  from 2 obtain zs where v: "v = Arr zs" and yz: "set ys \<subseteq> set zs"
    by (auto split: if_splits dest: array_filter_subset)
  from 1 v obtain xs where "loadReports rf f = Arr xs" and "set zs \<subseteq> set xs"
    by (auto split: if_splits dest: array_filter_subset)
  with yz show ?thesis by blast
qed

lemma getReportsInBounds_subset:
  assumes "getReportsInBounds eng rf a b c d f = Inr (Arr ys)"
  shows "\<exists>xs. loadReports rf f = Arr xs \<and> set ys \<subseteq> set xs"
  using assms by (auto simp: getReportsInBounds_def dest: array_filter_subset)

lemma loaded_anonymous:
  assumes "list_all has_report_fields (stored_reports f)" "loadReports rf f = Arr xs" "set ys \<subseteq> set xs"
  shows "list_all has_report_fields ys"
  using assms loadReports_Arr [of rf f xs] by (auto simp: list_all_iff)

lemma property_filter:
  "k \<in> S \<Longrightarrow> property (filter (\<lambda>kv. fst kv \<in> S) d) k = property d k"
  by (induction d) (auto simp: property_def)

lemma newReport_reads_five:
  "newReport e (filter (\<lambda>kv. fst kv \<in> set reportData_properties) d) = newReport e d"
proof -
  have "property (filter (\<lambda>kv. fst kv \<in> set reportData_properties) d) k = property d k"
    if "k \<in> set reportData_properties" for k
    using that by (rule property_filter)
  then show ?thesis
    by (simp add: newReport_def reportData_properties_def)
qed

text \<open>
  Claim C1. Anonymity invariant. Suppose every record in the reports file has exactly the
  six fields \<^verbatim>\<open>_id\<close>, \<^verbatim>\<open>location\<close>, \<^verbatim>\<open>safetyScore\<close>, \<^verbatim>\<open>tags\<close>, \<^verbatim>\<open>comment\<close>,
  \<^verbatim>\<open>timestamp\<close> (an absent file has no record), and the report data carries a score.
  Then the report that \<^verbatim>\<open>createReport\<close> builds and returns has exactly these six fields,
  it is the same report whatever other properties the report data carries (an address, an
  account or device identifier), every record of the file afterwards has exactly the six
  fields, however the write ended, and \<^verbatim>\<open>getReports\<close> and \<^verbatim>\<open>getReportsInBounds\<close>
  return only such records.
\<close>

theorem anonymity_invariant:
  assumes "list_all has_report_fields (stored_reports f)"
    and "property reportData ''safetyScore'' \<noteq> Undefined"
  shows "fst (createReport e reportData f) \<in> {Inr (newReport e reportData), Inl TypeError}
    \<and> has_report_fields (newReport e reportData)
    \<and> newReport e reportData =
        newReport e (filter (\<lambda>kv. fst kv \<in> set reportData_properties) reportData)
    \<and> list_all has_report_fields (stored_reports (snd (createReport e reportData f)))
    \<and> (getReports eng rf filters f = Inr (Arr rs) \<longrightarrow> list_all has_report_fields rs)
    \<and> (getReportsInBounds eng rf minLat maxLat minLon maxLon f = Inr (Arr rs') \<longrightarrow>
         list_all has_report_fields rs')"
proof -
  have 1: "fst (createReport e reportData f) \<in> {Inr (newReport e reportData), Inl TypeError}"
    by (cases "loadReports (read_fails e) f") (simp_all add: createReport_def Let_def)
  have 2: "has_report_fields (newReport e reportData)"
    using assms(2) by (rule has_report_fields_newReport)
  have 3: "list_all has_report_fields (stored_reports (snd (createReport e reportData f)))"
    using assms by (rule anonymous_after_create)
  have 4: "list_all has_report_fields rs" if "getReports eng rf filters f = Inr (Arr rs)"
    using getReports_subset [OF that] loaded_anonymous [OF assms(1)] by blast
  have 5: "list_all has_report_fields rs'"
    if "getReportsInBounds eng rf minLat maxLat minLon maxLon f = Inr (Arr rs')"
    using getReportsInBounds_subset [OF that] loaded_anonymous [OF assms(1)] by blast
  from 1 2 3 4 5 show ?thesis by (simp only: newReport_reads_five) blast
qed

lemma sample_getReports:
  "getReports sample_engine False [] (Present (Json (Arr [newReport sample_env sample_data]))) =
     Inr (Arr [newReport sample_env sample_data])"
  by (simp add: getReports_def property_def loadReports_simps)

lemma sample_in_bounds:
  "in_bounds sample_engine 43 44 (- 80) (- 79) (newReport sample_env sample_data) = Inr True"
  by (simp add: sample_newReport in_bounds_def property_def js_ge_def js_le_def IsLessThan_def)

lemma sample_getReportsInBounds:
  "getReportsInBounds sample_engine False 43 44 (- 80) (- 79)
     (Present (Json (Arr [newReport sample_env sample_data]))) =
   Inr (Arr [newReport sample_env sample_data])"
  by (simp add: getReportsInBounds_def loadReports_simps array_filter_def sample_in_bounds)

theorem anonymity_invariant_witness:
  "has_report_fields (newReport sample_env sample_data)
   \<and> list_all has_report_fields
        (stored_reports (snd (createReport sample_env sample_data
           (Present (Json (Arr [newReport sample_env sample_data]))))))
   \<and> list_all has_report_fields [newReport sample_env sample_data]"
proof -
  let ?f = "Present (Json (Arr [newReport sample_env sample_data]))"
  have 1: "list_all has_report_fields (stored_reports ?f)"
    by (simp add: sample_newReport report_fields_def)
  have 2: "property sample_data ''safetyScore'' \<noteq> Undefined"
    by (simp add: sample_data_def property_def)
  show ?thesis
    using anonymity_invariant [OF 1 2, of sample_env sample_engine False "[]"
        "[newReport sample_env sample_data]" 43 44 "- 80" "- 79"
        "[newReport sample_env sample_data]"]
      sample_getReports sample_getReportsInBounds
    by blast
qed

subsection \<open>A failed write\<close>

text \<open>
  Claim C2 asks that a failed durable write fail the whole append and leave the medium at
  the snapshot before or after the write. The code at such a write: \<^verbatim>\<open>saveReports\<close>
  catches the error and returns \<^verbatim>\<open>false\<close>, \<^verbatim>\<open>createReport\<close> drops that status and
  returns the new report as if it were stored, and a later load does not find the report.
  When the write fails after truncating the file, the record stored before is lost as well.
\<close>

theorem createReport_hides_failed_write:
  "createReport (sample_env\<lparr>write_result := Failed_untouched\<rparr>) sample_data Absent =
     (Inr (newReport sample_env sample_data), Absent)
   \<and> saveReports Failed_untouched [newReport sample_env sample_data] Absent = (False, Absent)
   \<and> loadReports False Absent = Arr []
   \<and> createReport (sample_env\<lparr>write_result := Failed_torn\<rparr>) sample_data
        (Present (Json (Arr [newReport sample_env sample_data]))) =
     (Inr (newReport sample_env sample_data), Present Unparseable)"
  by (simp add: createReport_def loadReports_simps saveReports_def newReport_def sample_env_def)

subsection \<open>Durability\<close>

lemma str_elements_stable:
  "list_all is_str xs \<Longrightarrow> map (\<lambda>x. if x = Undefined then Null else json_roundtrip x) xs = xs"
proof (induction xs)
  case Nil
  then show ?case by simp
next
  case (Cons x xs)
  then show ?case by (cases x) simp_all
qed

lemma tags_stable:
  assumes "t = Undefined \<or> is_str_array t"
  shows "json_roundtrip (js_or t (Arr [])) = js_or t (Arr []) \<and> js_or t (Arr []) \<noteq> Undefined"
  using assms by (cases t) (auto simp: js_or_def str_elements_stable)

lemma comment_stable:
  assumes "c = Undefined \<or> is_str c"
  shows "json_roundtrip (js_or c (Str [])) = js_or c (Str []) \<and> js_or c (Str []) \<noteq> Undefined"
  using assms by (cases c) (auto simp: js_or_def)

lemma num_stable: "is_num v \<Longrightarrow> json_roundtrip v = v \<and> v \<noteq> Undefined"
  by (cases v) simp_all

lemma newReport_stable:
  assumes "well_typed d"
  shows "json_roundtrip (newReport e d) = newReport e d"
  using assms
  by (simp add: well_typed_def newReport_def num_stable tags_stable comment_stable)

lemma newReport_defined: "newReport e d \<noteq> Undefined"
  by (simp add: newReport_def)

lemma createReport_success:
  assumes "\<not> read_fails e" "write_result e = Written" "well_typed d"
    and "loadReports False f = Arr rs" "json_roundtrip (Arr rs) = Arr rs"
  shows "createReport e d f = (Inr (newReport e d), Present (Json (Arr (rs @ [newReport e d]))))"
proof -
  from assms(1,4) have "loadReports (read_fails e) f = Arr rs" by simp
  then have "createReport e d f =
    (Inr (newReport e d), snd (saveReports (write_result e) (rs @ [newReport e d]) f))"
    by (rule createReport_Arr)
  moreover have "json_roundtrip (Arr (rs @ [newReport e d])) = Arr (rs @ [newReport e d])"
    using assms(5) newReport_stable [OF assms(3)] by (simp add: newReport_defined)
  ultimately show ?thesis using assms(2) by (simp add: saveReports_def)
qed

text \<open>
  Claim C3, amended. Durability round-trip. Take any sequence of \<^verbatim>\<open>createReport\<close> calls
  on well-typed report data in which every read of the reports file and every write
  succeeds, starting from a file that is absent or holds an array of JSON records. Each
  call returns its new report, and reloading the file afterwards gives the records it held
  before followed by exactly the returned reports, in order, with the same ids and the
  same field values.
\<close>

theorem durability_roundtrip:
  assumes "\<forall>c\<in>set calls. \<not> read_fails (fst c) \<and> write_result (fst c) = Written \<and> well_typed (snd c)"
    and "loadReports False f = Arr rs" "json_roundtrip (Arr rs) = Arr rs"
  shows "returned_reports calls f = map (\<lambda>c. Inr (newReport (fst c) (snd c))) calls
    \<and> loadReports False (createReports calls f)
        = Arr (rs @ map (\<lambda>c. newReport (fst c) (snd c)) calls)"
  using assms
proof (induction calls arbitrary: f rs)
  case Nil
  then show ?case by simp
next
  case (Cons c cs)
  let ?r = "newReport (fst c) (snd c)"
  from Cons.prems have c: "\<not> read_fails (fst c)" "write_result (fst c) = Written" "well_typed (snd c)"
    by simp_all
  have step: "createReport (fst c) (snd c) f = (Inr ?r, Present (Json (Arr (rs @ [?r]))))"
    using c Cons.prems(2,3) by (rule createReport_success)
  have l: "loadReports False (Present (Json (Arr (rs @ [?r])))) = Arr (rs @ [?r])"
    by (simp add: loadReports_simps)
  have s: "json_roundtrip (Arr (rs @ [?r])) = Arr (rs @ [?r])"
    using Cons.prems(3) newReport_stable [OF c(3)] by (simp add: newReport_defined)
  from Cons.prems(1) have "\<forall>c\<in>set cs. \<not> read_fails (fst c) \<and> write_result (fst c) = Written \<and> well_typed (snd c)"
    by simp
  from Cons.IH [OF this l s] show ?case by (simp add: step)
qed

lemma sample_well_typed: "well_typed sample_data"
  by (simp add: well_typed_def sample_data_def property_def)

lemma later_newReport:
  "newReport later_env sample_data =
     Obj [(''_id'', Str ''report_1700000001000_9zk1q0c3a''),
          (''location'', Obj [(''type'', Str ''Point''), (''coordinates'', Arr [Num (- 79.3832), Num 43.6532])]),
          (''safetyScore'', Num 3),
          (''tags'', Arr [Str ''Harassment'', Str ''Police Presence'']),
          (''comment'', Str ''Test report''),
          (''timestamp'', Str ''2023-11-14T22:13:21.000Z'')]"
  by (simp add: newReport_def later_env_def sample_data_def property_def js_or_def
      generateReportId_def substr_def decimal.simps digit_def)

theorem durability_roundtrip_witness:
  "returned_reports [(sample_env, sample_data), (later_env, sample_data)] Absent =
     [Inr (newReport sample_env sample_data), Inr (newReport later_env sample_data)]
   \<and> loadReports False (createReports [(sample_env, sample_data), (later_env, sample_data)] Absent) =
     Arr [newReport sample_env sample_data, newReport later_env sample_data]"
proof -
  have 1: "\<forall>c\<in>set [(sample_env, sample_data), (later_env, sample_data)].
      \<not> read_fails (fst c) \<and> write_result (fst c) = Written \<and> well_typed (snd c)"
    by (simp add: sample_env_def later_env_def sample_well_typed)
  have 2: "loadReports False Absent = Arr []" by (simp add: loadReports_simps)
  have 3: "json_roundtrip (Arr []) = Arr []" by simp
  show ?thesis using durability_roundtrip [OF 1 2 3] by simp
qed

text \<open>
  Claim C3 as stated, for every sequence of successful calls, fails when a call cannot read
  the file: \<^verbatim>\<open>loadReports\<close> then gives the empty array, the write succeeds and replaces
  the file, and the report of the earlier call, which had returned and was saved, is gone.
\<close>

theorem durability_counterexample:
  "returned_reports [(sample_env, sample_data), (later_env\<lparr>read_fails := True\<rparr>, sample_data)] Absent =
     [Inr (newReport sample_env sample_data), Inr (newReport later_env sample_data)]
   \<and> loadReports False
        (createReports [(sample_env, sample_data), (later_env\<lparr>read_fails := True\<rparr>, sample_data)] Absent) =
     Arr [newReport later_env sample_data]
   \<and> newReport sample_env sample_data \<noteq> newReport later_env sample_data"
proof -
  have n: "newReport (later_env\<lparr>read_fails := True\<rparr>) sample_data = newReport later_env sample_data"
    by (simp add: newReport_def)
  have w: "write_result sample_env = Written" "write_result later_env = Written"
    "read_fails sample_env = False"
    by (simp_all add: sample_env_def later_env_def)
  have 1: "createReport sample_env sample_data Absent =
      (Inr (newReport sample_env sample_data), Present (Json (Arr [newReport sample_env sample_data])))"
    using createReport_success [of sample_env sample_data Absent "[]"] w
    by (simp add: sample_well_typed loadReports_simps)
  have 2: "createReport (later_env\<lparr>read_fails := True\<rparr>) sample_data
        (Present (Json (Arr [newReport sample_env sample_data]))) =
      (Inr (newReport later_env sample_data), Present (Json (Arr [newReport later_env sample_data])))"
    using newReport_stable [OF sample_well_typed, of later_env] w
    by (simp add: createReport_def loadReports_simps saveReports_def n newReport_defined)
  have 3: "newReport sample_env sample_data \<noteq> newReport later_env sample_data"
    by (simp add: sample_newReport later_newReport)
  from 1 2 3 show ?thesis by (simp add: loadReports_simps n)
qed

subsection \<open>Report ids\<close>

lemma digit_inj: "a < 10 \<Longrightarrow> b < 10 \<Longrightarrow> digit a = digit b \<Longrightarrow> a = b"
proof -
  assume a: "a < 10" and b: "b < 10" and e: "digit a = digit b"
  have d: "distinct ''0123456789''" by simp
  have l: "length ''0123456789'' = 10" by simp
  from e have "''0123456789'' ! a = ''0123456789'' ! b" by (simp only: digit_def)
  with d a b l show "a = b" by (metis nth_eq_iff_index_eq)
qed

lemma digit_not_underscore: "d < 10 \<Longrightarrow> digit d \<noteq> CHR ''_''"
proof -
  assume "d < 10"
  then have "digit d \<in> set ''0123456789''"
    unfolding digit_def by (intro nth_mem) simp
  then show ?thesis by auto
qed

lemma decimal_not_Nil: "decimal n \<noteq> []"
  by (subst decimal.simps) simp

lemma decimal_no_underscore: "CHR ''_'' \<notin> set (decimal n)"
proof (induction n rule: decimal.induct)
  case (1 n)
  show ?case
  proof (cases "n < 10")
    case True
    then show ?thesis using digit_not_underscore [of n] by (subst decimal.simps) auto
  next
    case False
    then show ?thesis
      using "1.IH" digit_not_underscore [of "n mod 10"] by (subst decimal.simps) auto
  qed
qed

lemma decimal_inj: "decimal n = decimal m \<Longrightarrow> n = m"
proof (induction n arbitrary: m rule: decimal.induct)
  case (1 n)
  show ?case
  proof (cases "n < 10")
    case n: True
    show ?thesis
    proof (cases "m < 10")
      case True
      with n "1.prems" show ?thesis by (simp add: decimal.simps [of n] decimal.simps [of m] digit_inj)
    next
      case False
      with n "1.prems" decimal_not_Nil [of "m div 10"] show ?thesis
        by (simp add: decimal.simps [of n] decimal.simps [of m])
    qed
  next
    case n: False
    show ?thesis
    proof (cases "m < 10")
      case True
      with n "1.prems" decimal_not_Nil [of "n div 10"] show ?thesis
        by (simp add: decimal.simps [of n] decimal.simps [of m])
    next
      case False
      with n "1.prems" have e: "decimal (n div 10) = decimal (m div 10)"
        and d: "digit (n mod 10) = digit (m mod 10)"
        by (simp_all add: decimal.simps [of n] decimal.simps [of m])
      from "1.IH" [OF n e] have "n div 10 = m div 10" .
      moreover from d have "n mod 10 = m mod 10" by (intro digit_inj) simp_all
      ultimately show ?thesis by (metis div_mult_mod_eq)
    qed
  qed
qed

lemma split_at_separator:
  "c \<notin> set xs \<Longrightarrow> c \<notin> set xs' \<Longrightarrow> xs @ c # ys = xs' @ c # ys' \<Longrightarrow> xs = xs' \<and> ys = ys'"
proof (induction xs arbitrary: xs')
  case Nil
  then show ?case by (cases xs') auto
next
  case (Cons x xs)
  then show ?case by (cases xs') auto
qed

lemma generateReportId_eq_iff:
  "generateReportId n r = generateReportId n' r' \<longleftrightarrow> n = n' \<and> substr r 2 9 = substr r' 2 9"
proof
  assume "generateReportId n r = generateReportId n' r'"
  then have "decimal n @ CHR ''_'' # substr r 2 9 = decimal n' @ CHR ''_'' # substr r' 2 9"
    by (simp add: generateReportId_def)
  then have "decimal n = decimal n' \<and> substr r 2 9 = substr r' 2 9"
    by (intro split_at_separator [of "CHR ''_''"]) (simp_all add: decimal_no_underscore)
  then show "n = n' \<and> substr r 2 9 = substr r' 2 9" by (auto dest: decimal_inj)
next
  assume "n = n' \<and> substr r 2 9 = substr r' 2 9"
  then show "generateReportId n r = generateReportId n' r'" by (simp add: generateReportId_def)
qed

text \<open>
  Claim C8, amended. The id of a report is \<^verbatim>\<open>report_\<close>, the millisecond clock reading in
  decimal, an underscore, and up to nine characters of the random draw after its leading
  \<^verbatim>\<open>0.\<close>. Two created reports have the same id exactly when both the clock reading and
  these characters coincide; in every other case the ids are distinct, in one process run
  or across runs.
\<close>

theorem report_ids_distinct:
  "get (newReport e d) ''_id'' = get (newReport e' d') ''_id'' \<longleftrightarrow>
     date_now e = date_now e' \<and> substr (random_str e) 2 9 = substr (random_str e') 2 9"
  by (simp add: newReport_def property_def generateReportId_eq_iff)

theorem report_ids_distinct_witness:
  "get (newReport sample_env sample_data) ''_id'' \<noteq> get (newReport later_env sample_data) ''_id''"
  using report_ids_distinct [of sample_env sample_data later_env sample_data]
  by (simp add: sample_env_def later_env_def)

lemma second_well_typed: "well_typed second_data"
  by (simp add: well_typed_def second_data_def property_def)

lemma colliding_newReport:
  "newReport colliding_env second_data =
     Obj [(''_id'', Str ''report_1700000000000_4fzyo82mv''),
          (''location'', Obj [(''type'', Str ''Point''), (''coordinates'', Arr [Num 2.3522, Num 48.8566])]),
          (''safetyScore'', Num 5),
          (''tags'', Arr []),
          (''comment'', Str ''Quiet evening''),
          (''timestamp'', Str ''2023-11-14T22:13:20.000Z'')]"
  by (simp add: newReport_def colliding_env_def second_data_def property_def js_or_def
      generateReportId_def substr_def decimal.simps digit_def)

text \<open>
  Claim C8 as stated, any two created reports have distinct ids, fails for two calls in
  one millisecond whose random draws share their first nine digits: the file then holds two
  different reports under one id.
\<close>

theorem report_ids_counterexample:
  "random_str colliding_env \<noteq> random_str sample_env
   \<and> newReport colliding_env second_data \<noteq> newReport sample_env sample_data
   \<and> returned_reports [(sample_env, sample_data), (colliding_env, second_data)] Absent =
       [Inr (newReport sample_env sample_data), Inr (newReport colliding_env second_data)]
   \<and> stored_reports (createReports [(sample_env, sample_data), (colliding_env, second_data)] Absent) =
       [newReport sample_env sample_data, newReport colliding_env second_data]
   \<and> get (newReport sample_env sample_data) ''_id'' = Inr (Str ''report_1700000000000_4fzyo82mv'')
   \<and> get (newReport colliding_env second_data) ''_id'' = Inr (Str ''report_1700000000000_4fzyo82mv'')"
proof -
  have w: "\<not> read_fails sample_env" "write_result sample_env = Written"
    "\<not> read_fails colliding_env" "write_result colliding_env = Written"
    by (simp_all add: sample_env_def colliding_env_def)
  have 1: "createReport sample_env sample_data Absent =
      (Inr (newReport sample_env sample_data), Present (Json (Arr [newReport sample_env sample_data])))"
    using createReport_success [OF w(1,2) sample_well_typed, of Absent "[]"]
    by (simp add: loadReports_simps)
  have 2: "createReport colliding_env second_data (Present (Json (Arr [newReport sample_env sample_data]))) =
      (Inr (newReport colliding_env second_data),
       Present (Json (Arr [newReport sample_env sample_data, newReport colliding_env second_data])))"
    using createReport_success [OF w(3,4) second_well_typed,
        of "Present (Json (Arr [newReport sample_env sample_data]))" "[newReport sample_env sample_data]"]
    by (simp add: loadReports_simps sample_newReport)
  have 3: "random_str colliding_env \<noteq> random_str sample_env"
    by (simp add: sample_env_def colliding_env_def)
  have 4: "get (newReport sample_env sample_data) ''_id'' = Inr (Str ''report_1700000000000_4fzyo82mv'')"
    "get (newReport colliding_env second_data) ''_id'' = Inr (Str ''report_1700000000000_4fzyo82mv'')"
    by (simp_all add: sample_newReport colliding_newReport property_def)
  have 5: "newReport colliding_env second_data \<noteq> newReport sample_env sample_data"
    by (simp add: sample_newReport colliding_newReport)
  from 1 2 3 4 5 show ?thesis by simp
qed


subsection \<open>Timestamps\<close>

lemma map_of_drop_undefined:
  "map_of kvs k = Some v \<Longrightarrow> v \<noteq> Undefined \<Longrightarrow>
   map_of (filter (\<lambda>kv. snd kv \<noteq> Undefined) kvs) k = Some v"
  by (induction kvs) (auto split: if_splits)

lemma map_of_map_values:
  "map_of (map (\<lambda>kv. (fst kv, g (snd kv))) kvs) k = map_option g (map_of kvs k)"
  by (induction kvs) auto

lemma timestamp_of_Some:
  "timestamp_of r = Some t \<longleftrightarrow> (\<exists>kvs. r = Obj kvs \<and> map_of kvs ''timestamp'' = Some (Str t))"
  by (cases r)
    (auto simp: timestamp_of_def property_def split: option.splits jsval.splits sum.splits)

lemma timestamp_of_element:
  assumes "timestamp_of r = Some t"
  shows "timestamp_of (if r = Undefined then Null else json_roundtrip r) = Some t"
proof -
  from assms obtain kvs where r: "r = Obj kvs" and m: "map_of kvs ''timestamp'' = Some (Str t)"
    by (auto simp: timestamp_of_Some)
  from m have "map_of (filter (\<lambda>kv. snd kv \<noteq> Undefined) kvs) ''timestamp'' = Some (Str t)"
    by (rule map_of_drop_undefined) simp
  then have "map_of (map (\<lambda>kv. (fst kv, json_roundtrip (snd kv)))
      (filter (\<lambda>kv. snd kv \<noteq> Undefined) kvs)) ''timestamp'' = Some (Str t)"
    by (simp add: map_of_map_values)
  with r show ?thesis by (simp add: timestamp_of_Some)
qed

lemma timestamps_elements:
  "map timestamp_of rs = map Some ts \<Longrightarrow>
   map timestamp_of (map (\<lambda>x. if x = Undefined then Null else json_roundtrip x) rs) = map Some ts"
proof (induction rs arbitrary: ts)
  case Nil
  then show ?case by simp
next
  case (Cons r rs)
  then obtain t ts' where ts: "ts = t # ts'" and t: "timestamp_of r = Some t"
    and r: "map timestamp_of rs = map Some ts'"
    by (cases ts) auto
  from Cons.IH [OF r] timestamp_of_element [OF t] ts show ?case by simp
qed

lemma timestamp_of_newReport: "timestamp_of (newReport e d) = Some (iso_now e)"
  by (simp add: timestamp_of_def newReport_def property_def)

text \<open>One step: the timestamps in the file after a call, whatever its reads and writes did.\<close>

lemma timestamps_after_create:
  assumes "map timestamp_of (stored_reports f) = map Some ts"
  shows "\<exists>ts'. map timestamp_of (stored_reports (snd (createReport e d f))) = map Some ts'
     \<and> ts' \<in> {ts, [], ts @ [iso_now e], [iso_now e]}"
proof (cases "\<exists>rs. loadReports (read_fails e) f = Arr rs")
  case False
  then have "createReport e d f = (Inl TypeError, f)" by (intro createReport_not_Arr) blast
  with assms show ?thesis by auto
next
  case True
  then obtain rs where l: "loadReports (read_fails e) f = Arr rs" by blast
  then have rs: "rs = [] \<or> rs = stored_reports f" by (rule loadReports_Arr)
  have c: "snd (createReport e d f) = snd (saveReports (write_result e) (rs @ [newReport e d]) f)"
    using l by (simp add: createReport_Arr)
  show ?thesis
  proof (cases "write_result e")
    case Written
    from rs show ?thesis
    proof
      assume "rs = []"
      then have "map timestamp_of (stored_reports (snd (createReport e d f))) = map Some [iso_now e]"
        using c Written timestamp_of_element [OF timestamp_of_newReport, of e d]
        by (simp add: stored_after_save)
      then show ?thesis by blast
    next
      assume "rs = stored_reports f"
      with assms have "map timestamp_of (rs @ [newReport e d]) = map Some (ts @ [iso_now e])"
        by (simp add: timestamp_of_newReport)
      then have "map timestamp_of (stored_reports (snd (createReport e d f))) = map Some (ts @ [iso_now e])"
        using c Written by (simp only: stored_after_save write_outcome.case timestamps_elements)
      then show ?thesis by blast
    qed
  next
    case Failed_untouched
    with c assms show ?thesis by (auto simp: stored_after_save)
  next
    case Failed_torn
    with c show ?thesis by (auto simp: stored_after_save)
  qed
qed

lemma timestamps_sorted_general:
  assumes "map timestamp_of (stored_reports f) = map Some ts"
    and "sorted (ts @ map (\<lambda>c. iso_now (fst c)) calls)"
  shows "\<exists>ts'. map timestamp_of (stored_reports (createReports calls f)) = map Some ts'
     \<and> sorted ts' \<and> set ts' \<subseteq> set ts \<union> (\<lambda>c. iso_now (fst c)) ` set calls"
  using assms
proof (induction calls arbitrary: f ts)
  case Nil
  then show ?case by auto
next
  case (Cons c cs)
  let ?t = "iso_now (fst c)"
  from timestamps_after_create [OF Cons.prems(1), of "fst c" "snd c"]
  obtain ts1 where 1: "map timestamp_of (stored_reports (snd (createReport (fst c) (snd c) f))) = map Some ts1"
    and 2: "ts1 \<in> {ts, [], ts @ [?t], [?t]}"
    by blast
  from Cons.prems(2) have s: "sorted (ts @ ?t # map (\<lambda>c. iso_now (fst c)) cs)" by simp
  from 2 s have 3: "sorted (ts1 @ map (\<lambda>c. iso_now (fst c)) cs)"
    by (auto simp: sorted_append) fastforce+
  from 2 have 4: "set ts1 \<subseteq> set ts \<union> {?t}" by auto
  from Cons.IH [OF 1 3] obtain ts' where
    "map timestamp_of (stored_reports (createReports cs (snd (createReport (fst c) (snd c) f)))) = map Some ts'"
    "sorted ts'" "set ts' \<subseteq> set ts1 \<union> (\<lambda>c. iso_now (fst c)) ` set cs"
    by blast
  with 4 show ?case by (intro exI [of _ ts']) auto
qed

text \<open>
  Claim C9, amended. \<^verbatim>\<open>createReport\<close> stamps each report with the clock reading of its
  own call, whatever the report data holds. When the clock readings of a sequence of calls
  on a fresh store do not decrease (as ISO strings), the timestamps of the records in the
  file are non-decreasing in file order, ties allowed, and each is the reading of one of the
  calls; this holds whichever reads and writes failed on the way.
\<close>

theorem timestamps_monotone:
  assumes "sorted (map (\<lambda>c. iso_now (fst c)) calls)"
  shows "(\<forall>c\<in>set calls. timestamp_of (newReport (fst c) (snd c)) = Some (iso_now (fst c)))
    \<and> (\<exists>ts. map timestamp_of (stored_reports (createReports calls Absent)) = map Some ts
          \<and> sorted ts \<and> set ts \<subseteq> (\<lambda>c. iso_now (fst c)) ` set calls)"
proof -
  have "map timestamp_of (stored_reports Absent) = map Some []" by simp
  from timestamps_sorted_general [OF this] assms
  have "\<exists>ts. map timestamp_of (stored_reports (createReports calls Absent)) = map Some ts
          \<and> sorted ts \<and> set ts \<subseteq> (\<lambda>c. iso_now (fst c)) ` set calls"
    by simp
  then show ?thesis by (simp add: timestamp_of_newReport)
qed


lemma two_successful_calls:
  assumes "\<not> read_fails e1" "write_result e1 = Written" "well_typed d1"
    and "\<not> read_fails e2" "write_result e2 = Written" "well_typed d2"
  shows "createReports [(e1, d1), (e2, d2)] Absent =
    Present (Json (Arr [newReport e1 d1, newReport e2 d2]))"
proof -
  have 1: "createReport e1 d1 Absent = (Inr (newReport e1 d1), Present (Json (Arr [newReport e1 d1])))"
    using createReport_success [OF assms(1-3), of Absent "[]"] by (simp add: loadReports_simps)
  have "json_roundtrip (Arr [newReport e1 d1]) = Arr [newReport e1 d1]"
    using newReport_stable [OF assms(3)] by (simp add: newReport_defined)
  then have 2: "createReport e2 d2 (Present (Json (Arr [newReport e1 d1]))) =
      (Inr (newReport e2 d2), Present (Json (Arr [newReport e1 d1, newReport e2 d2])))"
    using createReport_success [OF assms(4-6), of "Present (Json (Arr [newReport e1 d1]))" "[newReport e1 d1]"]
    by (simp add: loadReports_simps)
  from 1 2 show ?thesis by simp
qed

theorem timestamps_monotone_witness:
  "sorted (map (\<lambda>c. iso_now (fst c)) [(sample_env, sample_data), (later_env, second_data)])
   \<and> timestamp_of (newReport later_env second_data) = Some (iso_now later_env)
   \<and> (\<exists>ts. map timestamp_of
              (stored_reports (createReports [(sample_env, sample_data), (later_env, second_data)] Absent))
            = map Some ts \<and> sorted ts)"
proof -
  have s: "sorted (map (\<lambda>c. iso_now (fst c)) [(sample_env, sample_data), (later_env, second_data)])"
    by (simp add: sample_env_def later_env_def)
  from timestamps_monotone [OF s] s show ?thesis by auto
qed

text \<open>
  Claim C9 as stated fails when the system clock is set back between two appends: the
  store takes each timestamp from the clock and never compares it with the last one stored.
\<close>

theorem timestamps_counterexample:
  "map timestamp_of
     (stored_reports (createReports [(later_env, sample_data), (sample_env, second_data)] Absent)) =
     [Some ''2023-11-14T22:13:21.000Z'', Some ''2023-11-14T22:13:20.000Z'']
   \<and> \<not> sorted [''2023-11-14T22:13:21.000Z'', ''2023-11-14T22:13:20.000Z'']"
proof -
  have "createReports [(later_env, sample_data), (sample_env, second_data)] Absent =
      Present (Json (Arr [newReport later_env sample_data, newReport sample_env second_data]))"
    by (rule two_successful_calls)
      (simp_all add: sample_env_def later_env_def sample_well_typed second_well_typed)
  then show ?thesis
    by (simp add: timestamp_of_newReport) (simp add: sample_env_def later_env_def)
qed

subsection \<open>Queries\<close>

lemma filter_elements_pure:
  "\<forall>x\<in>set xs. p x = Inr (q x) \<Longrightarrow> filter_elements p xs = Inr (filter q xs)"
  by (induction xs) simp_all

lemma array_filter_pure:
  "\<forall>x\<in>set xs. p x = Inr (q x) \<Longrightarrow> array_filter p (Arr xs) = Inr (Arr (filter q xs))"
  using filter_elements_pure [of xs p q] by (simp add: array_filter_def)

lemma js_ge_Str: "js_ge eng (Str t) (Str lo) \<longleftrightarrow> lo \<le> t"
  by (auto simp: js_ge_def IsLessThan_def)

lemma js_le_Str: "js_le eng (Str t) (Str hi) \<longleftrightarrow> t \<le> hi"
  by (auto simp: js_le_def IsLessThan_def)

lemma js_ge_Num: "js_ge eng (Num x) (Num lo) \<longleftrightarrow> lo \<le> x"
  by (auto simp: js_ge_def IsLessThan_def)

lemma js_le_Num: "js_le eng (Num x) (Num hi) \<longleftrightarrow> x \<le> hi"
  by (auto simp: js_le_def IsLessThan_def)

lemma timestamp_of_get: "timestamp_of r = Some t \<Longrightarrow> get r ''timestamp'' = Inr (Str t)"
  by (auto simp: timestamp_of_def split: sum.splits jsval.splits)

lemma timestamp_ge_Str:
  "timestamp_of r = Some t \<Longrightarrow> timestamp_ge eng (Str lo) r = Inr (lo \<le> t)"
  by (simp add: timestamp_ge_def timestamp_of_get js_ge_Str)

lemma timestamp_le_Str:
  "timestamp_of r = Some t \<Longrightarrow> timestamp_le eng (Str hi) r = Inr (t \<le> hi)"
  by (simp add: timestamp_le_def timestamp_of_get js_le_Str)

lemma in_bounds_in_box:
  assumes "coordinates_of r \<noteq> None"
  shows "in_bounds eng minLat maxLat minLon maxLon r = Inr (in_box minLat maxLat minLon maxLon r)"
proof -
  from assms obtain loc lon lat rest where
    "get r ''location'' = Inr loc" "get loc ''coordinates'' = Inr (Arr (Num lon # Num lat # rest))"
    by (auto simp: coordinates_of_def split: sum.splits jsval.splits list.splits)
  then show ?thesis
    by (simp add: in_bounds_def in_box_def coordinates_of_def js_ge_Num js_le_Num)
qed

lemma min_filter:
  assumes "\<forall>r\<in>set rs. timestamp_of r \<noteq> None"
    and "b = Undefined \<or> is_str b"
  shows "(if truthy b then array_filter (timestamp_ge eng b) (Arr rs) else Inr (Arr rs)) =
     Inr (Arr (filter (\<lambda>r. case date_bound b of None \<Rightarrow> True
        | Some lo \<Rightarrow> (case timestamp_of r of None \<Rightarrow> False | Some t \<Rightarrow> lo \<le> t)) rs))"
proof (cases "truthy b")
  case False
  with assms(2) have "date_bound b = None" by (cases b) auto
  with False show ?thesis by simp
next
  case True
  with assms(2) obtain lo where b: "b = Str lo" "lo \<noteq> []" by (cases b) auto
  have "\<forall>r\<in>set rs. timestamp_ge eng (Str lo) r =
      Inr (case timestamp_of r of None \<Rightarrow> False | Some t \<Rightarrow> lo \<le> t)"
    using assms(1) by (auto simp: timestamp_ge_Str)
  from array_filter_pure [OF this] b show ?thesis by simp
qed

lemma max_filter:
  assumes "\<forall>r\<in>set rs. timestamp_of r \<noteq> None"
    and "b = Undefined \<or> is_str b"
  shows "(if truthy b then array_filter (timestamp_le eng b) (Arr rs) else Inr (Arr rs)) =
     Inr (Arr (filter (\<lambda>r. case date_bound b of None \<Rightarrow> True
        | Some hi \<Rightarrow> (case timestamp_of r of None \<Rightarrow> False | Some t \<Rightarrow> t \<le> hi)) rs))"
proof (cases "truthy b")
  case False
  with assms(2) have "date_bound b = None" by (cases b) auto
  with False show ?thesis by simp
next
  case True
  with assms(2) obtain hi where b: "b = Str hi" "hi \<noteq> []" by (cases b) auto
  have "\<forall>r\<in>set rs. timestamp_le eng (Str hi) r =
      Inr (case timestamp_of r of None \<Rightarrow> False | Some t \<Rightarrow> t \<le> hi)"
    using assms(1) by (auto simp: timestamp_le_Str)
  from array_filter_pure [OF this] b show ?thesis by simp
qed

lemma getReports_filter:
  assumes l: "loadReports rf f = Arr rs"
    and t: "\<forall>r\<in>set rs. timestamp_of r \<noteq> None"
    and lo: "property filters ''minDate'' = Undefined \<or> is_str (property filters ''minDate'')"
    and hi: "property filters ''maxDate'' = Undefined \<or> is_str (property filters ''maxDate'')"
  shows "getReports eng rf filters f = Inr (Arr (filter (matches_dates filters) rs))"
proof -
  let ?q1 = "\<lambda>r. case date_bound (property filters ''minDate'') of None \<Rightarrow> True
        | Some lo \<Rightarrow> (case timestamp_of r of None \<Rightarrow> False | Some t \<Rightarrow> lo \<le> t)"
  let ?q2 = "\<lambda>r. case date_bound (property filters ''maxDate'') of None \<Rightarrow> True
        | Some hi \<Rightarrow> (case timestamp_of r of None \<Rightarrow> False | Some t \<Rightarrow> t \<le> hi)"
  from t have t': "\<forall>r\<in>set (filter ?q1 rs). timestamp_of r \<noteq> None" by simp
  have "getReports eng rf filters f = Inr (Arr (filter ?q2 (filter ?q1 rs)))"
    by (simp only: getReports_def Let_def l min_filter [OF t lo] max_filter [OF t' hi] sum.case)
  moreover have "filter ?q2 (filter ?q1 rs) = filter (matches_dates filters) rs"
    using t by (auto simp: matches_dates_def intro!: filter_cong split: option.splits)
  ultimately show ?thesis by simp
qed

text \<open>
  Claim C7. On a stored log whose records carry a timestamp string and numeric coordinates
  (as every record made by \<^verbatim>\<open>createReport\<close> from well-typed data does), and with time
  bounds that are absent or strings, \<^verbatim>\<open>getReports\<close> returns exactly the stored records
  whose timestamp lies within the given bounds, both inclusive, and
  \<^verbatim>\<open>getReportsInBounds\<close> returns exactly the stored records whose latitude lies in
  \<open>[minLat, maxLat]\<close> and whose longitude lies in \<open>[minLon, maxLon]\<close>: all of them, only
  them, in stored order. An empty string as a bound counts as no bound.
\<close>

theorem list_returns_matching:
  assumes "loadReports False f = Arr (stored_reports f)"
    and "\<forall>r\<in>set (stored_reports f). timestamp_of r \<noteq> None \<and> coordinates_of r \<noteq> None"
    and "property filters ''minDate'' = Undefined \<or> is_str (property filters ''minDate'')"
    and "property filters ''maxDate'' = Undefined \<or> is_str (property filters ''maxDate'')"
  shows "getReports eng False filters f = Inr (Arr (filter (matches_dates filters) (stored_reports f)))
    \<and> getReportsInBounds eng False minLat maxLat minLon maxLon f =
        Inr (Arr (filter (in_box minLat maxLat minLon maxLon) (stored_reports f)))"
proof -
  have 1: "getReports eng False filters f = Inr (Arr (filter (matches_dates filters) (stored_reports f)))"
    using assms by (intro getReports_filter) auto
  have "\<forall>r\<in>set (stored_reports f). in_bounds eng minLat maxLat minLon maxLon r =
      Inr (in_box minLat maxLat minLon maxLon r)"
    using assms(2) by (auto simp: in_bounds_in_box)
  from array_filter_pure [OF this] assms(1)
  have 2: "getReportsInBounds eng False minLat maxLat minLon maxLon f =
        Inr (Arr (filter (in_box minLat maxLat minLon maxLon) (stored_reports f)))"
    by (simp add: getReportsInBounds_def)
  from 1 2 show ?thesis by simp
qed


lemma coordinates_of_newReport:
  "is_num (property d ''longitude'') \<Longrightarrow> is_num (property d ''latitude'') \<Longrightarrow>
   coordinates_of (newReport e d) \<noteq> None"
  by (cases "property d ''longitude''"; cases "property d ''latitude''")
    (simp_all add: coordinates_of_def newReport_def property_def)

lemma sample_coordinates:
  "coordinates_of (newReport sample_env sample_data) = Some (- 79.3832, 43.6532)"
  "coordinates_of (newReport later_env second_data) = Some (2.3522, 48.8566)"
  by (simp_all add: coordinates_of_def newReport_def property_def sample_data_def second_data_def)

theorem list_returns_matching_witness:
  "getReports sample_engine False [(''minDate'', Str ''2023-11-14T22:13:21.000Z'')]
     (Present (Json (Arr [newReport sample_env sample_data, newReport later_env second_data]))) =
     Inr (Arr [newReport later_env second_data])
   \<and> getReportsInBounds sample_engine False 43 44 (- 80) (- 79)
     (Present (Json (Arr [newReport sample_env sample_data, newReport later_env second_data]))) =
     Inr (Arr [newReport sample_env sample_data])"
proof -
  let ?f = "Present (Json (Arr [newReport sample_env sample_data, newReport later_env second_data]))"
  let ?filters = "[(''minDate'', Str ''2023-11-14T22:13:21.000Z'')]"
  have 1: "loadReports False ?f = Arr (stored_reports ?f)" by (simp add: loadReports_simps)
  have 2: "\<forall>r\<in>set (stored_reports ?f). timestamp_of r \<noteq> None \<and> coordinates_of r \<noteq> None"
    by (simp add: timestamp_of_newReport sample_coordinates del: not_None_eq)
  have 3: "property ?filters ''minDate'' = Undefined \<or> is_str (property ?filters ''minDate'')"
    by (simp add: property_def)
  have 4: "property ?filters ''maxDate'' = Undefined \<or> is_str (property ?filters ''maxDate'')"
    by (simp add: property_def)
  have 5: "filter (matches_dates ?filters) (stored_reports ?f) = [newReport later_env second_data]"
    by (simp add: matches_dates_def timestamp_of_newReport property_def sample_env_def later_env_def)
  have 6: "filter (in_box 43 44 (- 80) (- 79)) (stored_reports ?f) = [newReport sample_env sample_data]"
    by (simp add: in_box_def sample_coordinates)
  from list_returns_matching [OF 1 2 3 4, of sample_engine 43 44 "- 80" "- 79"] 5 6
  show ?thesis by simp
qed

section \<open>Properties of the ingestion endpoint\<close>

subsection \<open>Rate limiting\<close>

lemma checkAndRecord_frame:
  "j \<noteq> i \<Longrightarrow> snd (checkAndRecord W Q j t m) i = m i"
  by (simp add: checkAndRecord_def split: option.splits)

lemma checkAndRecord_local:
  "m i = m' i \<Longrightarrow>
   fst (checkAndRecord W Q i t m) = fst (checkAndRecord W Q i t m')
   \<and> snd (checkAndRecord W Q i t m) i = snd (checkAndRecord W Q i t m') i"
  by (simp add: checkAndRecord_def split: option.splits)

lemma checkAll_per_identity:
  assumes "m i = m' i"
  shows "map snd (filter (\<lambda>r. fst r = i) (fst (checkAll W Q evs m)))
       = map snd (fst (checkAll W Q (filter (\<lambda>ev. fst ev = i) evs) m'))
     \<and> snd (checkAll W Q evs m) i = snd (checkAll W Q (filter (\<lambda>ev. fst ev = i) evs) m') i"
  using assms
proof (induction evs arbitrary: m m')
  case Nil
  then show ?case by simp
next
  case (Cons ev evs)
  show ?case
  proof (cases "fst ev = i")
    case True
    from checkAndRecord_local [of m i m' W Q "snd ev"] Cons.prems
    have d: "fst (checkAndRecord W Q i (snd ev) m) = fst (checkAndRecord W Q i (snd ev) m')"
      and s: "snd (checkAndRecord W Q i (snd ev) m) i = snd (checkAndRecord W Q i (snd ev) m') i"
      by simp_all
    from Cons.IH [of "snd (checkAndRecord W Q i (snd ev) m)" "snd (checkAndRecord W Q i (snd ev) m')"] s True d
    show ?thesis by (simp add: Let_def)
  next
    case False
    then have "snd (checkAndRecord W Q (fst ev) (snd ev) m) i = m' i"
      using Cons.prems by (simp add: checkAndRecord_frame)
    from Cons.IH [of "snd (checkAndRecord W Q (fst ev) (snd ev) m)" m'] this False
    show ?thesis by (simp add: Let_def)
  qed
qed

lemma four_in_window:
  assumes fresh: "m i = None \<or> (\<exists>w. m i = Some w \<and> W \<le> t1 - windowStart w)"
    and w: "t2 - t1 < W" "t3 - t1 < W" "t4 - t1 < W"
  shows "map snd (fst (checkAll W 3 [(i, t1), (i, t2), (i, t3), (i, t4)] m))
       = [Allowed, Allowed, Allowed, Throttled]
     \<and> snd (checkAll W 3 [(i, t1), (i, t2), (i, t3), (i, t4)] m) i
       = Some \<lparr>count = 4, windowStart = t1\<rparr>"
proof -
  have 1: "checkAndRecord W 3 i t1 m = (Allowed, m(i \<mapsto> \<lparr>count = 1, windowStart = t1\<rparr>))"
    using fresh by (auto simp: checkAndRecord_def)
  have 2: "checkAndRecord W 3 i t2 (m(i \<mapsto> \<lparr>count = 1, windowStart = t1\<rparr>))
      = (Allowed, m(i \<mapsto> \<lparr>count = 2, windowStart = t1\<rparr>))"
    using w(1) by (simp add: checkAndRecord_def eval_nat_numeral)
  have 3: "checkAndRecord W 3 i t3 (m(i \<mapsto> \<lparr>count = 2, windowStart = t1\<rparr>))
      = (Allowed, m(i \<mapsto> \<lparr>count = 3, windowStart = t1\<rparr>))"
    using w(2) by (simp add: checkAndRecord_def eval_nat_numeral)
  have 4: "checkAndRecord W 3 i t4 (m(i \<mapsto> \<lparr>count = 3, windowStart = t1\<rparr>))
      = (Throttled, m(i \<mapsto> \<lparr>count = 4, windowStart = t1\<rparr>))"
    using w(3) by (simp add: checkAndRecord_def eval_nat_numeral)
  show ?thesis
    unfolding checkAll.simps Let_def fst_conv snd_conv 1 2 3 4 by simp
qed

text \<open>
  Claim C4. Rate limiting with the default quota of 3 and the default window of one hour.
  Take any stream of submissions in which an identity with no live window submits four
  times, the last three within the window opened by the first; other identities may submit
  in between. Its decisions are Allowed, Allowed, Allowed, Throttled, in this order. A
  further submission of the identity once the window length has elapsed since the first
  opens a fresh window with count 1 and is Allowed.
\<close>

theorem rate_limit_fixed_window:
  assumes "m i = None \<or> (\<exists>w. m i = Some w \<and> default_window \<le> t1 - windowStart w)"
    and "map snd (filter (\<lambda>ev. fst ev = i) evs) = [t1, t2, t3, t4]"
    and "t2 - t1 < default_window" "t3 - t1 < default_window" "t4 - t1 < default_window"
    and "default_window \<le> t5 - t1"
  shows "map snd (filter (\<lambda>r. fst r = i) (fst (checkAll default_window default_quota evs m)))
       = [Allowed, Allowed, Allowed, Throttled]
     \<and> checkAndRecord default_window default_quota i t5 (snd (checkAll default_window default_quota evs m))
       = (Allowed, (snd (checkAll default_window default_quota evs m))
            (i \<mapsto> \<lparr>count = 1, windowStart = t5\<rparr>))"
proof -
  let ?W = default_window
  let ?evs = "filter (\<lambda>ev. fst ev = i) evs"
  have "map fst ?evs = replicate (length ?evs) i"
    by (induction evs) auto
  moreover from assms(2) have "length ?evs = 4" 
    using length_map [of snd ?evs] by simp
  ultimately have "map fst ?evs = [i, i, i, i]" by (simp add: numeral_eq_Suc)
  with assms(2) have e: "?evs = [(i, t1), (i, t2), (i, t3), (i, t4)]"
    by (metis zip_map_fst_snd zip_Cons_Cons zip_Nil)
  from checkAll_per_identity [of m i m ?W 3 evs] e
  have p: "map snd (filter (\<lambda>r. fst r = i) (fst (checkAll ?W 3 evs m)))
       = map snd (fst (checkAll ?W 3 [(i, t1), (i, t2), (i, t3), (i, t4)] m))"
    and q: "snd (checkAll ?W 3 evs m) i = snd (checkAll ?W 3 [(i, t1), (i, t2), (i, t3), (i, t4)] m) i"
    by simp_all
  from four_in_window [of m i default_window t1 t2 t3 t4] assms(1,3,4,5) p q
  have d: "map snd (filter (\<lambda>r. fst r = i) (fst (checkAll ?W 3 evs m)))
       = [Allowed, Allowed, Allowed, Throttled]"
    and s: "snd (checkAll ?W 3 evs m) i = Some \<lparr>count = 4, windowStart = t1\<rparr>"
    by simp_all
  from s assms(6) have "checkAndRecord ?W 3 i t5 (snd (checkAll ?W 3 evs m))
       = (Allowed, (snd (checkAll ?W 3 evs m))(i \<mapsto> \<lparr>count = 1, windowStart = t5\<rparr>))"
    by (simp add: checkAndRecord_def)
  with d show ?thesis by (simp add: default_quota_def)
qed


theorem rate_limit_fixed_window_witness:
  "map snd (filter (\<lambda>r. fst r = ''203.0.113.7'')
     (fst (checkAll default_window default_quota
        [(''203.0.113.7'', 0), (''198.51.100.2'', 5), (''203.0.113.7'', 1000),
         (''203.0.113.7'', 2000), (''203.0.113.7'', 3599999)] Map.empty)))
     = [Allowed, Allowed, Allowed, Throttled]
   \<and> checkAndRecord default_window default_quota ''203.0.113.7'' 3600000
       (snd (checkAll default_window default_quota
        [(''203.0.113.7'', 0), (''198.51.100.2'', 5), (''203.0.113.7'', 1000),
         (''203.0.113.7'', 2000), (''203.0.113.7'', 3599999)] Map.empty))
     = (Allowed,
        (snd (checkAll default_window default_quota
        [(''203.0.113.7'', 0), (''198.51.100.2'', 5), (''203.0.113.7'', 1000),
         (''203.0.113.7'', 2000), (''203.0.113.7'', 3599999)] Map.empty))
          (''203.0.113.7'' \<mapsto> \<lparr>count = 1, windowStart = 3600000\<rparr>))"
proof (rule rate_limit_fixed_window [where ?t1.0 = 0 and ?t2.0 = 1000 and ?t3.0 = 2000 and ?t4.0 = 3599999])
  show "Map.empty ''203.0.113.7'' = None
      \<or> (\<exists>w. Map.empty ''203.0.113.7'' = Some w \<and> default_window \<le> 0 - windowStart w)"
    by simp
  show "map snd (filter (\<lambda>ev. fst ev = ''203.0.113.7'')
        [(''203.0.113.7'', 0), (''198.51.100.2'', 5), (''203.0.113.7'', 1000),
         (''203.0.113.7'', 2000), (''203.0.113.7'', 3599999)]) = [0, 1000, 2000, 3599999 :: int]"
    by simp
qed (simp_all add: default_window_def)

subsection \<open>Tags\<close>

lemma tags_not_ok:
  assumes "property raw ''tags'' = Arr ts" "\<exists>t\<in>set ts. \<not> in_catalog t"
  shows "\<not> tags_ok raw"
  using assms by (auto simp: tags_ok_def list_all_iff)

lemma submit_rejected:
  assumes "validate raw = Inl err"
  shows "submit W Q identity now e raw st \<in>
      {(TooManyRequests, (snd (checkAndRecord W Q identity now (fst st)), snd st)),
       (BadRequest err, (snd (checkAndRecord W Q identity now (fst st)), snd st))}"
  using assms
  by (cases "checkAndRecord W Q identity now (fst st)"; cases "fst (checkAndRecord W Q identity now (fst st))")
    (auto simp: submit_def)

text \<open>
  Claim C5. A submission whose tag sequence holds at least one value outside the Tag
  Catalog is rejected as a whole: \<^verbatim>\<open>validate\<close> returns an error, the tag error when
  location and score are valid, and never a payload with the valid tags only; the endpoint
  answers with a failure and leaves the reports file as it was, so no report is stored.
\<close>

theorem unknown_tag_rejected:
  assumes "property raw ''tags'' = Arr ts" and "\<exists>t\<in>set ts. \<not> in_catalog t"
  shows "validate raw \<in> {Inl LocationError, Inl ScoreError, Inl TagError}
    \<and> (location_ok raw \<and> score_ok raw \<longrightarrow> validate raw = Inl TagError)
    \<and> fst (submit W Q identity now e raw st) \<in>
         {TooManyRequests, BadRequest LocationError, BadRequest ScoreError, BadRequest TagError}
    \<and> snd (snd (submit W Q identity now e raw st)) = snd st"
proof -
  from assms have t: "\<not> tags_ok raw" by (rule tags_not_ok)
  then have v: "validate raw \<in> {Inl LocationError, Inl ScoreError, Inl TagError}"
    by (simp add: validate_def)
  from t have v': "location_ok raw \<and> score_ok raw \<longrightarrow> validate raw = Inl TagError"
    by (simp add: validate_def)
  from v obtain err where e: "validate raw = Inl err" "err \<in> {LocationError, ScoreError, TagError}"
    by auto
  from submit_rejected [OF e(1), of W Q identity now e st] e(2)
  have "fst (submit W Q identity now e raw st) \<in>
         {TooManyRequests, BadRequest LocationError, BadRequest ScoreError, BadRequest TagError}
    \<and> snd (snd (submit W Q identity now e raw st)) = snd st"
    by auto
  with v v' show ?thesis by blast
qed

theorem unknown_tag_rejected_witness:
  "validate unknown_tag_data = Inl TagError
   \<and> snd (snd (submit default_window default_quota ''203.0.113.7'' 0 sample_env unknown_tag_data
        (Map.empty, Absent))) = Absent"
proof -
  have 1: "property unknown_tag_data ''tags'' = Arr [Str ''Harassment'', Str ''Fireworks'']"
    by (simp add: unknown_tag_data_def property_def)
  have 2: "\<exists>t\<in>set [Str ''Harassment'', Str ''Fireworks'']. \<not> in_catalog t"
    by (simp add: ALLOWED_TAGS_def)
  have 3: "location_ok unknown_tag_data \<and> score_ok unknown_tag_data"
    by (simp add: location_ok_def score_ok_def unknown_tag_data_def property_def)
  from unknown_tag_rejected [OF 1 2, of default_window default_quota "''203.0.113.7''" 0 sample_env
      "(Map.empty, Absent)"] 3
  show ?thesis by simp
qed

subsection \<open>Comments\<close>

lemma strip_markup_subseq: "subseq (strip_markup s) s"
proof (induction s rule: strip_markup.induct)
  case 1
  then show ?case by simp
next
  case (2 c cs)
  show ?case
  proof (cases "c = CHR ''<'' \<and> CHR ''>'' \<in> set cs")
    case True
    let ?rest = "tl (dropWhile (\<lambda>x. x \<noteq> CHR ''>'') cs)"
    have "suffix ?rest cs"
      using suffix_tl [of "dropWhile (\<lambda>x. x \<noteq> CHR ''>'') cs"] suffix_dropWhile [of "\<lambda>x. x \<noteq> CHR ''>''" cs]
      by (rule suffix_order.trans)
    then have "subseq ?rest cs" by (rule suffix_imp_subseq)
    with "2.IH"(1) [OF True] have "subseq (strip_markup ?rest) cs"
      by (rule subseq_order.trans)
    then have "subseq (strip_markup ?rest) (c # cs)" by (rule list_emb_Cons)
    with True show ?thesis by simp
  next
    case False
    with "2.IH"(2) [OF False] show ?thesis by auto
  qed
qed

lemma strip_markup_set: "set (strip_markup s) \<subseteq> set s"
proof
  fix x assume "x \<in> set (strip_markup s)"
  with strip_markup_subseq [of s] obtain y where "y \<in> set s" "x = y"
    by (rule list_emb_set)
  then show "x \<in> set s" by simp
qed

lemma strip_markup_length: "length (strip_markup s) \<le> length s"
  using strip_markup_subseq [of s] by (rule list_emb_length)

lemma strip_markup_clean: "\<not> has_markup (strip_markup s)"
proof (induction s rule: strip_markup.induct)
  case 1
  then show ?case by simp
next
  case (2 c cs)
  show ?case
  proof (cases "c = CHR ''<'' \<and> CHR ''>'' \<in> set cs")
    case True
    with "2.IH"(1) [OF True] show ?thesis by simp
  next
    case False
    with "2.IH"(2) [OF False] strip_markup_set [of cs] show ?thesis by auto
  qed
qed

lemma strip_markup_plain: "\<not> has_markup s \<Longrightarrow> strip_markup s = s"
  by (induction s) auto

lemma validate_payload:
  assumes "validate raw = Inr p"
  shows "location_ok raw \<and> score_ok raw \<and> tags_ok raw
    \<and> sanitize_comment (property raw ''comment'') = Inr (property p ''comment'')
    \<and> property p ''latitude'' = property raw ''latitude''
    \<and> property p ''longitude'' = property raw ''longitude''
    \<and> property p ''safetyScore'' = property raw ''safetyScore''
    \<and> property p ''tags'' = property raw ''tags''"
  using assms by (auto simp: validate_def property_def split: if_splits sum.splits)

lemma sanitize_comment_Str:
  "sanitize_comment (Str c) = Inr v \<longleftrightarrow> v = Str (strip_markup c) \<and> length (strip_markup c) \<le> 280"
  by (auto simp: sanitize_comment_def)

lemma in_catalog_is_str: "in_catalog t \<Longrightarrow> is_str t"
  by (cases t) simp_all

lemma validate_well_typed:
  assumes "validate raw = Inr p"
  shows "well_typed p"
proof -
  note v = validate_payload [OF assms]
  from v have "is_num (property p ''latitude'')" "is_num (property p ''longitude'')"
    by (auto simp: location_ok_def split: jsval.splits)
  moreover from v have "is_num (property p ''safetyScore'')"
    by (auto simp: score_ok_def split: jsval.splits)
  moreover from v have "property p ''tags'' = Undefined \<or> is_str_array (property p ''tags'')"
    by (auto simp: tags_ok_def list_all_iff in_catalog_is_str split: jsval.splits)
  moreover from v have "property p ''comment'' = Undefined \<or> is_str (property p ''comment'')"
    by (cases "property raw ''comment''")
      (auto simp: sanitize_comment_def split: if_splits, metis is_str.simps(1))
  ultimately show ?thesis by (simp add: well_typed_def)
qed

lemma submit_Created:
  assumes "submit W Q identity now e raw st = (Created report, st')"
  shows "\<exists>p. validate raw = Inr p \<and> report = newReport e p
     \<and> createReport e p (snd st) = (Inr report, snd st')"
  using assms
  by (auto simp: submit_def createReport_def Let_def split: prod.splits decision.splits sum.splits jsval.splits)

lemma newReport_comment:
  "get (newReport e p) ''comment'' = Inr (js_or (property p ''comment'') (Str []))"
  by (simp add: newReport_def property_def)

lemma js_or_Str: "js_or (Str s) (Str []) = Str s"
  by (simp add: js_or_def)

lemma created_is_stored:
  assumes c: "createReport e p f = (Inr report, f')" and w: "write_result e = Written"
    and t: "well_typed p"
  shows "stored_reports f' \<noteq> [] \<and> last (stored_reports f') = report"
proof -
  from c obtain rs where l: "loadReports (read_fails e) f = Arr rs"
    by (cases "loadReports (read_fails e) f") (auto simp: createReport_def)
  from createReport_Arr [OF l, of p] c w
  have r: "report = newReport e p"
    and f': "f' = Present (Json (json_roundtrip (Arr (rs @ [newReport e p]))))"
    by (simp_all add: saveReports_def)
  from f' newReport_stable [OF t, of e] r show ?thesis
    by (simp add: newReport_defined)
qed

text \<open>
  Claim C6. Comment handling. Stripping removes every tag-like sequence and keeps the rest
  of the text in order (the result is a subsequence of the comment, and a comment without
  markup is unchanged). On otherwise valid input a comment whose sanitized length is at most
  280, so also exactly 280, is accepted and passed on sanitized, and one whose sanitized
  length is more than 280, so also 281, is rejected with the comment error. Whenever the
  endpoint answers Created, the comment of the report is the sanitized comment, of length at
  most 280, and with a successful write that report is the last record of the file. The
  client's \<^verbatim>\<open>handleSubmit\<close> raises its alert exactly for comments longer than 280.
\<close>

theorem comment_sanitized:
  assumes "property raw ''comment'' = Str c"
  shows "\<not> has_markup (strip_markup c) \<and> subseq (strip_markup c) c
    \<and> (\<not> has_markup c \<longrightarrow> strip_markup c = c)
    \<and> (location_ok raw \<and> score_ok raw \<and> tags_ok raw \<longrightarrow>
         (length (strip_markup c) \<le> 280 \<longrightarrow>
            (\<exists>p. validate raw = Inr p \<and> property p ''comment'' = Str (strip_markup c)))
         \<and> (280 < length (strip_markup c) \<longrightarrow> validate raw = Inl CommentError))
    \<and> (submit W Q identity now e raw st = (Created report, st') \<longrightarrow>
         get report ''comment'' = Inr (Str (strip_markup c)) \<and> length (strip_markup c) \<le> 280
         \<and> (write_result e = Written \<longrightarrow>
              stored_reports (snd st') \<noteq> [] \<and> last (stored_reports (snd st')) = report))
    \<and> (truthy safetyScore \<and> truthy location \<longrightarrow>
         (handleSubmit_validation safetyScore location c = Some ''Comment Too Long'')
           = (280 < length c))"
proof -
  have 1: "\<not> has_markup (strip_markup c) \<and> subseq (strip_markup c) c
    \<and> (\<not> has_markup c \<longrightarrow> strip_markup c = c)"
    by (simp add: strip_markup_clean strip_markup_subseq strip_markup_plain)
  have 2: "\<exists>p. validate raw = Inr p \<and> property p ''comment'' = Str (strip_markup c)"
    if "location_ok raw" "score_ok raw" "tags_ok raw" "length (strip_markup c) \<le> 280"
    using that assms by (simp add: validate_def sanitize_comment_def property_def)
  have 3: "validate raw = Inl CommentError"
    if "location_ok raw" "score_ok raw" "tags_ok raw" "280 < length (strip_markup c)"
    using that assms by (simp add: validate_def sanitize_comment_def)
  have 4: "get report ''comment'' = Inr (Str (strip_markup c)) \<and> length (strip_markup c) \<le> 280
         \<and> (write_result e = Written \<longrightarrow>
              stored_reports (snd st') \<noteq> [] \<and> last (stored_reports (snd st')) = report)"
    if s: "submit W Q identity now e raw st = (Created report, st')"
  proof -
    from submit_Created [OF s] obtain p where p: "validate raw = Inr p" "report = newReport e p"
      "createReport e p (snd st) = (Inr report, snd st')"
      by blast
    from validate_payload [OF p(1)] assms
    have "sanitize_comment (Str c) = Inr (property p ''comment'')" by simp
    then have k: "property p ''comment'' = Str (strip_markup c)" "length (strip_markup c) \<le> 280"
      by (simp_all add: sanitize_comment_Str)
    from k(1) p(2) have "get report ''comment'' = Inr (Str (strip_markup c))"
      by (simp add: newReport_comment js_or_Str)
    moreover have "stored_reports (snd st') \<noteq> [] \<and> last (stored_reports (snd st')) = report"
      if "write_result e = Written"
      using p(3) that validate_well_typed [OF p(1)] by (rule created_is_stored)
    ultimately show ?thesis using k(2) by blast
  qed
  have 5: "(handleSubmit_validation safetyScore location c = Some ''Comment Too Long'')
           = (280 < length c)"
    if "truthy safetyScore" "truthy location"
    using that by (simp add: handleSubmit_validation_def)
  from 1 2 3 4 5 show ?thesis by blast
qed


lemma letters_plain: "\<not> has_markup (replicate n (CHR ''a''))"
  by (induction n) simp_all

lemma strip_long_comment: "strip_markup (''<i>'' @ replicate n (CHR ''a'')) = replicate n (CHR ''a'')"
  by (simp add: strip_markup_plain letters_plain)

lemma long_comment_fields:
  "property (long_comment_data n) ''comment'' = Str (''<i>'' @ replicate n (CHR ''a''))"
  "location_ok (long_comment_data n)" "score_ok (long_comment_data n)" "tags_ok (long_comment_data n)"
  by (simp_all add: long_comment_data_def property_def location_ok_def score_ok_def tags_ok_def)

theorem comment_sanitized_witness:
  "(\<exists>p. validate (long_comment_data 280) = Inr p
        \<and> property p ''comment'' = Str (replicate 280 (CHR ''a'')))
   \<and> validate (long_comment_data 281) = Inl CommentError"
proof -
  have a: "length (strip_markup (''<i>'' @ replicate 280 (CHR ''a''))) \<le> 280"
    and b: "280 < length (strip_markup (''<i>'' @ replicate 281 (CHR ''a'')))"
    by (simp_all only: strip_long_comment length_replicate)
  from comment_sanitized [OF long_comment_fields(1) [of 280]] long_comment_fields(2-4) [of 280] a
  have "\<exists>p. validate (long_comment_data 280) = Inr p
        \<and> property p ''comment'' = Str (strip_markup (''<i>'' @ replicate 280 (CHR ''a'')))"
    by blast
  then have 1: "\<exists>p. validate (long_comment_data 280) = Inr p
        \<and> property p ''comment'' = Str (replicate 280 (CHR ''a''))"
    by (simp only: strip_long_comment)
  from comment_sanitized [OF long_comment_fields(1) [of 281]] long_comment_fields(2-4) [of 281] b
  have 2: "validate (long_comment_data 281) = Inl CommentError"
    by blast
  from 1 2 show ?thesis by (rule conjI)
qed

end
